theory Spec2Isabelle
  imports Complex_Main
begin

section \<open>PaperCanvas: annotation layout and synchronized rendering\<close>

text \<open>
  A shallow embedding of the canvas component \<^verbatim>\<open>PaperCanvas\<close> and of the main panel of
  \<^verbatim>\<open>App\<close> that mounts it. JavaScript numbers are modelled as exact numbers: \<^typ>\<open>real\<close>
  for coordinates, times and scales, \<^typ>\<open>int\<close> for what \<^verbatim>\<open>parseInt\<close> returns, and \<open>None\<close>
  for \<^verbatim>\<open>NaN\<close>. Rounding of IEEE doubles is not modelled. Strings are lists of 8-bit
  characters, read as code units below 256. React state is a record that each handler
  takes and returns updated.
\<close>

subsection \<open>Data model\<close>

text \<open>A pair \<^verbatim>\<open>{ x, y }\<close> (offset, drag start, a touch's client position).\<close>

record xy =
  xc :: real
  yc :: real

text \<open>\<^verbatim>\<open>imgDims\<close>: the native size \<^verbatim>\<open>{ w, h }\<close> of the medium.\<close>

record dims =
  w :: real
  h :: real

text \<open>The component state that the input handlers and the effects read and write.\<close>

record canvas_state =
  imgDims :: dims
  scale :: real
  offset :: xy
  isDragging :: bool
  dragStart :: xy
  touchStart :: "xy option"
  initialPinchDistance :: "real option"
  initialScale :: real
  currentTime :: real

text \<open>The state of the first render: the arguments of the \<^verbatim>\<open>useState\<close> and \<^verbatim>\<open>useRef\<close> calls.\<close>

definition initial_state :: canvas_state where
  "initial_state =
     \<lparr> imgDims = \<lparr> w = 1000, h = 1000 \<rparr>,
       scale = 0.45,
       offset = \<lparr> xc = 0, yc = 0 \<rparr>,
       isDragging = False,
       dragStart = \<lparr> xc = 0, yc = 0 \<rparr>,
       touchStart = None,
       initialPinchDistance = None,
       initialScale = 0.45,
       currentTime = 0 \<rparr>"

subsection \<open>Interaction controller\<close>

text \<open>\<^verbatim>\<open>Math.hypot\<close> of two arguments.\<close>

definition hypot :: "real \<Rightarrow> real \<Rightarrow> real" where
  "hypot a b = sqrt (a * a + b * b)"

text \<open>
  \<^verbatim>\<open>img.onload\<close> and the video's \<^verbatim>\<open>loadedmetadata\<close> handler: both store the native size,
  centre the view and start zoomed out when \<^verbatim>\<open>window.innerWidth < 768\<close>.
\<close>

definition mediaLoaded :: "canvas_state \<Rightarrow> real \<Rightarrow> real \<Rightarrow> real \<Rightarrow> canvas_state" where
  "mediaLoaded st nw nh innerWidth =
     (let st1 = st\<lparr> imgDims := \<lparr> w = nw, h = nh \<rparr>, offset := \<lparr> xc = 0, yc = 0 \<rparr> \<rparr>
      in if innerWidth < 768 then st1\<lparr> scale := 0.3 \<rparr> else st1)"

definition timeUpdate :: "canvas_state \<Rightarrow> real \<Rightarrow> canvas_state" where
  "timeUpdate st t = st\<lparr> currentTime := t \<rparr>"

definition handleWheel :: "canvas_state \<Rightarrow> real \<Rightarrow> canvas_state" where
  "handleWheel st deltaY =
     (let newScale = max 0.05 (min 8 (scale st - deltaY * 0.001))
      in st\<lparr> scale := newScale \<rparr>)"

definition handleMouseDown :: "canvas_state \<Rightarrow> xy \<Rightarrow> canvas_state" where
  "handleMouseDown st client =
     st\<lparr> isDragging := True,
         dragStart := \<lparr> xc = xc client - xc (offset st), yc = yc client - yc (offset st) \<rparr> \<rparr>"

definition handleMouseMove :: "canvas_state \<Rightarrow> xy \<Rightarrow> canvas_state" where
  "handleMouseMove st client =
     (if isDragging st
      then st\<lparr> offset := \<lparr> xc = xc client - xc (dragStart st),
                           yc = yc client - yc (dragStart st) \<rparr> \<rparr>
      else st)"

definition handleMouseUp :: "canvas_state \<Rightarrow> canvas_state" where
  "handleMouseUp st = st\<lparr> isDragging := False \<rparr>"

text \<open>
  The touch handlers take \<^verbatim>\<open>e.touches\<close> as the list of the touches' client positions.
  One finger pans, two fingers pinch, any other count does nothing.
\<close>

fun handleTouchStart :: "canvas_state \<Rightarrow> xy list \<Rightarrow> canvas_state" where
  "handleTouchStart st [t0] =
     st\<lparr> touchStart := Some t0,
         dragStart := \<lparr> xc = xc t0 - xc (offset st), yc = yc t0 - yc (offset st) \<rparr>,
         isDragging := True \<rparr>"
| "handleTouchStart st [t0, t1] =
     (let dist = hypot (xc t0 - xc t1) (yc t0 - yc t1)
      in st\<lparr> initialPinchDistance := Some dist,
             initialScale := scale st,
             isDragging := False \<rparr>)"
| "handleTouchStart st touches = st"

text \<open>
  A JavaScript number or \<^verbatim>\<open>null\<close> used as a condition: \<^verbatim>\<open>null\<close> and \<^verbatim>\<open>0\<close> are false.
\<close>

fun truthy :: "real option \<Rightarrow> bool" where
  "truthy None = False"
| "truthy (Some d) = (d \<noteq> 0)"

fun handleTouchMove :: "canvas_state \<Rightarrow> xy list \<Rightarrow> canvas_state" where
  "handleTouchMove st [t0] =
     (if isDragging st
      then st\<lparr> offset := \<lparr> xc = xc t0 - xc (dragStart st),
                           yc = yc t0 - yc (dragStart st) \<rparr> \<rparr>
      else st)"
| "handleTouchMove st [t0, t1] =
     (if truthy (initialPinchDistance st)
      then (let currentDist = hypot (xc t0 - xc t1) (yc t0 - yc t1);
                delta = currentDist / the (initialPinchDistance st);
                newScale = max 0.05 (min 8 (initialScale st * delta))
            in st\<lparr> scale := newScale \<rparr>)
      else st)"
| "handleTouchMove st touches = st"

definition handleTouchEnd :: "canvas_state \<Rightarrow> canvas_state" where
  "handleTouchEnd st = st\<lparr> isDragging := False, initialPinchDistance := None \<rparr>"

text \<open>The \<^verbatim>\<open>onClick\<close> of the Reset button.\<close>

definition resetView :: "canvas_state \<Rightarrow> canvas_state" where
  "resetView st = st\<lparr> scale := 0.45, offset := \<lparr> xc = 0, yc = 0 \<rparr> \<rparr>"

text \<open>
  The events that reach the component, and the handler each one runs. \<^verbatim>\<open>onMouseLeave\<close>
  runs \<^verbatim>\<open>handleMouseUp\<close> and \<^verbatim>\<open>onTouchCancel\<close> runs \<^verbatim>\<open>handleTouchEnd\<close>.
\<close>

datatype event =
    MediaLoaded real real real
  | TimeUpdate real
  | Wheel real
  | MouseDown xy
  | MouseMove xy
  | MouseUp
  | MouseLeave
  | TouchStart "xy list"
  | TouchMove "xy list"
  | TouchEnd
  | TouchCancel
  | ResetClick

fun handle :: "canvas_state \<Rightarrow> event \<Rightarrow> canvas_state" where
  "handle st (MediaLoaded nw nh innerWidth) = mediaLoaded st nw nh innerWidth"
| "handle st (TimeUpdate t) = timeUpdate st t"
| "handle st (Wheel deltaY) = handleWheel st deltaY"
| "handle st (MouseDown c) = handleMouseDown st c"
| "handle st (MouseMove c) = handleMouseMove st c"
| "handle st MouseUp = handleMouseUp st"
| "handle st MouseLeave = handleMouseUp st"
| "handle st (TouchStart ts) = handleTouchStart st ts"
| "handle st (TouchMove ts) = handleTouchMove st ts"
| "handle st TouchEnd = handleTouchEnd st"
| "handle st TouchCancel = handleTouchEnd st"
| "handle st ResetClick = resetView st"

text \<open>The state after a sequence of events, starting from the first render.\<close>

definition run :: "event list \<Rightarrow> canvas_state" where
  "run evs = foldl handle initial_state evs"

subsection \<open>Coordinate scaling\<close>

text \<open>
  The scaling factors of \<^verbatim>\<open>layout\<close> and \<^verbatim>\<open>render\<close>, and a box
  \<^verbatim>\<open>[ymin, xmin, ymax, xmax]\<close> of the 0-1000 space scaled to the native size.
\<close>

definition scaleX :: "dims \<Rightarrow> real" where
  "scaleX d = w d / 1000"

definition scaleY :: "dims \<Rightarrow> real" where
  "scaleY d = h d / 1000"

type_synonym box = "real \<times> real \<times> real \<times> real"

fun scaleBox :: "dims \<Rightarrow> box \<Rightarrow> box" where
  "scaleBox d (b0, b1, b2, b3) =
     (let ymin = b0 * scaleY d;
          xmin = b1 * scaleX d;
          ymax = b2 * scaleY d;
          xmax = b3 * scaleX d
      in (ymin, xmin, ymax, xmax))"

subsection \<open>Analysis entities\<close>

text \<open>
  The fields of \<^verbatim>\<open>BlueprintDetail\<close>, \<^verbatim>\<open>BlueprintObject\<close>, \<^verbatim>\<open>LiveDetection\<close> and
  \<^verbatim>\<open>AnalysisResult\<close> that the canvas reads. An optional field is an \<open>option\<close>.
\<close>

record BlueprintDetail =
  det_name :: string
  location_point :: "real \<times> real"
  description :: string

record Biometrics =
  is_face :: bool
  estimated_age :: "string option"
  gender_presentation :: "string option"

record Tracking =
  trajectory :: "(real \<times> real) list"
  estimated_speed :: "string option"

record BlueprintObject =
  obj_id :: string
  name :: string
  box_2d :: box
  material :: string
  details :: "BlueprintDetail list"
  timestamp :: "string option"
  biometrics :: "Biometrics option"
  tracking :: "Tracking option"

record LiveDetection =
  live_label :: string
  live_box_2d :: box
  live_timestamp :: "real option"

record AnalysisResult =
  objects :: "BlueprintObject list"

subsection \<open>Timestamps\<close>

text \<open>
  \<^verbatim>\<open>parseInt\<close> with no radix: leading white space is skipped, a sign is read, a
  \<^verbatim>\<open>0x\<close> prefix selects radix 16, and the longest prefix of digits is the value. With no
  digit the result is \<^verbatim>\<open>NaN\<close>, here \<open>None\<close>.
\<close>

definition isWhiteSpace :: "char \<Rightarrow> bool" where
  "isWhiteSpace c = ((of_char c :: nat) \<in> {9, 10, 11, 12, 13, 32, 160})"

definition digitValue :: "char \<Rightarrow> nat option" where
  "digitValue c =
     (let n = (of_char c :: nat)
      in if 48 \<le> n \<and> n \<le> 57 then Some (n - 48)
         else if 97 \<le> n \<and> n \<le> 122 then Some (n - 87)
         else if 65 \<le> n \<and> n \<le> 90 then Some (n - 55)
         else None)"

definition isRadixDigit :: "nat \<Rightarrow> char \<Rightarrow> bool" where
  "isRadixDigit R c = (case digitValue c of None \<Rightarrow> False | Some v \<Rightarrow> v < R)"

definition radixValue :: "nat \<Rightarrow> string \<Rightarrow> nat" where
  "radixValue R Z = foldl (\<lambda>acc c. acc * R + the (digitValue c)) 0 Z"

definition parseInt :: "string \<Rightarrow> int option" where
  "parseInt str =
     (let S = dropWhile isWhiteSpace str;
          sign = (if S \<noteq> [] \<and> hd S = CHR ''-'' then - 1 else 1 :: int);
          S1 = (if S \<noteq> [] \<and> (hd S = CHR ''+'' \<or> hd S = CHR ''-'') then tl S else S);
          hex = (take 2 S1 = ''0x'' \<or> take 2 S1 = ''0X'');
          R = (if hex then 16 else 10);
          S2 = (if hex then drop 2 S1 else S1);
          Z = takeWhile (isRadixDigit R) S2
      in if Z = [] then None else Some (sign * int (radixValue R Z)))"

text \<open>\<^verbatim>\<open>String.prototype.split\<close> with a one-character separator.\<close>

fun split :: "char \<Rightarrow> string \<Rightarrow> string list" where
  "split sep [] = [[]]"
| "split sep (c # cs) =
     (if c = sep then [] # split sep cs
      else (case split sep cs of [] \<Rightarrow> [[c]] | p # ps \<Rightarrow> (c # p) # ps))"

text \<open>
  \<^verbatim>\<open>parseTimestamp\<close>. An absent or empty string gives -1, as does a string that does
  not split into two parts at the colon. With two parts the result is
  \<^verbatim>\<open>parseInt(parts[0]) * 60 + parseInt(parts[1])\<close>, which is \<^verbatim>\<open>NaN\<close> as soon as one
  \<^verbatim>\<open>parseInt\<close> is. Nothing in the \<^verbatim>\<open>try\<close> block throws on a string, so the \<^verbatim>\<open>catch\<close>
  branch has no counterpart here.
\<close>

definition parseTimestamp :: "string option \<Rightarrow> int option" where
  "parseTimestamp ts =
     (if ts = None \<or> ts = Some [] then Some (- 1)
      else (let parts = split CHR '':'' (the ts)
            in if length parts = 2
               then (case (parseInt (parts ! 0), parseInt (parts ! 1)) of
                       (Some m, Some s) \<Rightarrow> Some (m * 60 + s)
                     | _ \<Rightarrow> None)
               else Some (- 1)))"

subsection \<open>Temporal visibility filter\<close>

text \<open>
  The callback of the \<^verbatim>\<open>filter\<close> in \<^verbatim>\<open>visibleObjects\<close>. A comparison with \<^verbatim>\<open>NaN\<close> is
  false.
\<close>

definition timestampFilter :: "real \<Rightarrow> BlueprintObject \<Rightarrow> bool" where
  "timestampFilter t obj =
     (if timestamp obj = None \<or> timestamp obj = Some [] then True
      else (let objTime = parseTimestamp (timestamp obj)
            in if objTime = Some (- 1) then True
               else (case objTime of
                       None \<Rightarrow> False
                     | Some v \<Rightarrow> \<bar>t - real_of_int v\<bar> < 0.6)))"

text \<open>The callback of the \<^verbatim>\<open>map\<close> in \<^verbatim>\<open>visibleObjects\<close>.\<close>

definition capDetails :: "nat \<Rightarrow> BlueprintObject \<Rightarrow> BlueprintObject" where
  "capDetails maxDetails obj = obj\<lparr> details := take maxDetails (details obj) \<rparr>"

text \<open>
  \<^verbatim>\<open>visibleObjects\<close>: the temporal filter for a video, then the detail budget: below
  level 100 every entity keeps a prefix of its details, and below level 30 only a prefix
  of the entities is kept.
\<close>

definition visibleObjects ::
  "AnalysisResult option \<Rightarrow> real \<Rightarrow> bool \<Rightarrow> real \<Rightarrow> BlueprintObject list" where
  "visibleObjects data detailLevel isVideo t =
     (case data of
        None \<Rightarrow> []
      | Some d \<Rightarrow>
          (let filtered = objects d;
               filtered1 = (if isVideo then filter (timestampFilter t) filtered else filtered)
           in if detailLevel < 100
              then (let maxDetails = nat (max 1 \<lfloor>detailLevel / 20\<rfloor>);
                        filtered2 = map (capDetails maxDetails) filtered1
                    in if detailLevel < 30
                       then take (nat (max 1 \<lfloor>real (length filtered2) * (detailLevel / 30)\<rfloor>))
                                 filtered2
                       else filtered2)
              else filtered1))"

subsection \<open>Layout labels and the layout solver\<close>

datatype edge = Left | Right | Top | Bottom

text \<open>
  \<^verbatim>\<open>LayoutLabel\<close>. The field \<open>ref\<close> is not in the source: it is the position of the
  label object in the \<^verbatim>\<open>labels\<close> array and stands for the identity of the JavaScript
  object, which \<^verbatim>\<open>leftItems\<close> and \<^verbatim>\<open>rightItems\<close> share with \<^verbatim>\<open>labels\<close>.
\<close>

record LayoutLabel =
  ref :: nat
  label_id :: string
  textLines :: "string list"
  isHeader :: bool
  objColor :: string
  textColor :: string
  px :: real
  py :: real
  tx :: real
  ty :: real
  width :: real
  height :: real
  edge :: edge

definition MARGIN_X :: real where "MARGIN_X = 800"
definition MARGIN_Y :: real where "MARGIN_Y = 600"
definition FONT_HEIGHT_HEADER :: real where "FONT_HEIGHT_HEADER = 20"
definition FONT_HEIGHT_DETAIL :: real where "FONT_HEIGHT_DETAIL = 14"
definition LABEL_PADDING :: real where "LABEL_PADDING = 10"

definition PALETTE :: "string list" where
  "PALETTE = [''#1e40af'', ''#991b1b'', ''#166534'', ''#854d0e'', ''#6b21a8'', ''#0f766e'',
              ''#c2410c'']"

definition getContrastColor :: "string \<Rightarrow> string" where
  "getContrastColor hexcolor = ''#ffffff''"

text \<open>
  The quantities that \<^verbatim>\<open>solve1DLayout\<close> selects with \<^verbatim>\<open>isVertical\<close>: the sort key (the
  anchor), the target position and the size along the layout axis.
\<close>

definition anchorPos :: "bool \<Rightarrow> LayoutLabel \<Rightarrow> real" where
  "anchorPos isVertical a = (if isVertical then py a else px a)"

definition targetPos :: "bool \<Rightarrow> LayoutLabel \<Rightarrow> real" where
  "targetPos isVertical a = (if isVertical then ty a else tx a)"

definition axisSize :: "bool \<Rightarrow> LayoutLabel \<Rightarrow> real" where
  "axisSize isVertical a = (if isVertical then height a else width a)"

text \<open>\<^verbatim>\<open>a.ty += delta\<close> or \<^verbatim>\<open>a.tx += delta\<close>.\<close>

definition pushBy :: "bool \<Rightarrow> real \<Rightarrow> LayoutLabel \<Rightarrow> LayoutLabel" where
  "pushBy isVertical delta a =
     (if isVertical then a\<lparr> ty := ty a + delta \<rparr> else a\<lparr> tx := tx a + delta \<rparr>)"

text \<open>
  One run of the inner \<^verbatim>\<open>for\<close> loop over the adjacent pairs. The pair \<open>(i, i + 1)\<close>
  is the head of the list; after it, item \<open>i\<close> is final for this pass and item \<open>i + 1\<close>,
  as the pair left it, is the first of the next pair. The result carries
  \<^verbatim>\<open>overlapFound\<close>.
\<close>

fun relaxPass :: "bool \<Rightarrow> LayoutLabel list \<Rightarrow> LayoutLabel list \<times> bool" where
  "relaxPass isVertical (a # b # rest) =
     (let aPos = targetPos isVertical a;
          bPos = targetPos isVertical b;
          aSize = axisSize isVertical a;
          bSize = axisSize isVertical b;
          dist = bPos - aPos;
          minSep = (aSize + bSize) / 2 + 10
      in if dist < minSep
         then (let push = (minSep - dist) / 2;
                   a' = pushBy isVertical (- push) a;
                   b' = pushBy isVertical push b
               in (a' # fst (relaxPass isVertical (b' # rest)), True))
         else (a # fst (relaxPass isVertical (b # rest)),
               snd (relaxPass isVertical (b # rest))))"
| "relaxPass isVertical items = (items, False)"

text \<open>The boundary constraints on one item: first the lower bound, then the upper one.\<close>

definition clampItem :: "bool \<Rightarrow> real \<Rightarrow> real \<Rightarrow> LayoutLabel \<Rightarrow> LayoutLabel" where
  "clampItem isVertical minPos maxPos item =
     (if isVertical
      then (let item1 = (if ty item - height item / 2 < minPos
                         then item\<lparr> ty := minPos + height item / 2 \<rparr> else item)
            in if ty item1 + height item1 / 2 > maxPos
               then item1\<lparr> ty := maxPos - height item1 / 2 \<rparr> else item1)
      else (let item1 = (if tx item - width item / 2 < minPos
                         then item\<lparr> tx := minPos + width item / 2 \<rparr> else item)
            in if tx item1 + width item1 / 2 > maxPos
               then item1\<lparr> tx := maxPos - width item1 / 2 \<rparr> else item1))"

text \<open>
  What a run of the solver leaves: the items array (sorted, with the targets moved), the
  number of passes of the \<^verbatim>\<open>while\<close> loop, and whether the loop ended because
  \<^verbatim>\<open>iterations\<close> ran out rather than by \<^verbatim>\<open>break\<close>.
\<close>

record solve_result =
  laidOut :: "LayoutLabel list"
  passes :: nat
  exhausted :: bool

text \<open>
  The \<^verbatim>\<open>while (iterations-- > 0)\<close> loop, by recursion on \<^verbatim>\<open>iterations\<close>: a pass over the
  pairs, the boundary constraints on every item, and \<^verbatim>\<open>break\<close> when the pass found no
  overlap.
\<close>

fun solveLoop :: "nat \<Rightarrow> bool \<Rightarrow> real \<Rightarrow> real \<Rightarrow> LayoutLabel list \<Rightarrow> solve_result" where
  "solveLoop 0 isVertical minPos maxPos items =
     \<lparr> laidOut = items, passes = 0, exhausted = True \<rparr>"
| "solveLoop (Suc iterations) isVertical minPos maxPos items =
     (let moved = fst (relaxPass isVertical items);
          overlapFound = snd (relaxPass isVertical items);
          clamped = map (clampItem isVertical minPos maxPos) moved
      in if \<not> overlapFound
         then \<lparr> laidOut = clamped, passes = 1, exhausted = False \<rparr>
         else (let r = solveLoop iterations isVertical minPos maxPos clamped
               in r\<lparr> passes := Suc (passes r) \<rparr>))"

text \<open>
  \<^verbatim>\<open>solve1DLayout\<close>. \<^verbatim>\<open>Array.prototype.sort\<close> is stable, as \<open>sort_key\<close> is.
\<close>

definition solve1DLayout ::
  "LayoutLabel list \<Rightarrow> bool \<Rightarrow> real \<Rightarrow> real \<Rightarrow> solve_result" where
  "solve1DLayout items isVertical minPos maxPos =
     (if items = [] then \<lparr> laidOut = [], passes = 0, exhausted = False \<rparr>
      else solveLoop 20 isVertical minPos maxPos (sort_key (anchorPos isVertical) items))"

subsection \<open>Layout computation\<close>

text \<open>
  \<^verbatim>\<open>String.prototype.toUpperCase\<close>. A character here is a code unit below 256, so the
  cased characters are the ASCII letters and the Latin-1 letters \<open>0xE0\<close> to \<open>0xFE\<close>
  (without the division sign \<open>0xF7\<close>), whose upper case is 32 below, and the sharp s
  \<open>0xDF\<close>, whose upper case is \<open>SS\<close>. The micro sign \<open>0xB5\<close> and \<open>0xFF\<close> have their
  upper case above 255, which a character of this model cannot hold: they are kept.
\<close>

definition upperChar :: "char \<Rightarrow> string" where
  "upperChar c =
     (let n = (of_char c :: nat)
      in if (97 \<le> n \<and> n \<le> 122) \<or> (224 \<le> n \<and> n \<le> 254 \<and> n \<noteq> 247)
         then [char_of (n - 32)]
         else if n = 223 then ''SS''
         else [c])"

definition toUpperCase :: "string \<Rightarrow> string" where
  "toUpperCase s = concat (map upperChar s)"

text \<open>A natural number in a template string.\<close>

function showNat :: "nat \<Rightarrow> string" where
  "showNat n =
     (if n < 10 then [char_of (48 + n)]
      else showNat (n div 10) @ [char_of (48 + n mod 10)])"
  by pat_completeness auto
termination
  by (relation "measure (\<lambda>n. n)") auto

text \<open>\<^verbatim>\<open>value || fallback\<close> on an optional string: absent and empty are both false.\<close>

definition orDefault :: "string option \<Rightarrow> string \<Rightarrow> string" where
  "orDefault v fallback =
     (case v of None \<Rightarrow> fallback | Some s \<Rightarrow> if s = [] then fallback else s)"

definition headerTextLines :: "BlueprintObject \<Rightarrow> string list" where
  "headerTextLines obj =
     filter (\<lambda>line. line \<noteq> [])
       [toUpperCase (name obj),
        (if (case biometrics obj of None \<Rightarrow> False | Some b \<Rightarrow> is_face b)
         then ''AGE: '' @ orDefault (estimated_age (the (biometrics obj))) ''?'' @ '' | ''
              @ orDefault (gender_presentation (the (biometrics obj))) ''?''
         else if (case tracking obj of
                    None \<Rightarrow> False
                  | Some tr \<Rightarrow> (case estimated_speed tr of None \<Rightarrow> False | Some s \<Rightarrow> s \<noteq> []))
         then ''SPEED: '' @ the (estimated_speed (the (tracking obj)))
         else material obj)]"

text \<open>
  The header label of the entity at position \<open>idx\<close> of the visible entities. The anchor is
  on the box, at its left edge for the left side and its right edge for the right side;
  the target starts 350 outside the media edge, at the height of the box centre.
\<close>

definition headerLabel :: "dims \<Rightarrow> nat \<Rightarrow> nat \<Rightarrow> BlueprintObject \<Rightarrow> LayoutLabel" where
  "headerLabel d r idx obj =
     (let color = PALETTE ! (idx mod length PALETTE);
          textColor = getContrastColor color;
          (ymin, xmin, ymax, xmax) = scaleBox d (box_2d obj);
          cx = (xmin + xmax) / 2;
          cy = (ymin + ymax) / 2;
          quadrant = (if cy > h d / 2 then 2 else 0) + (if cx > w d / 2 then 1 else 0 :: nat);
          lines = headerTextLines obj;
          headerWidth = 260;
          headerHeight = real (length lines) * FONT_HEIGHT_HEADER + LABEL_PADDING * 2
      in if quadrant = 0 \<or> quadrant = 2
         then \<lparr> ref = r, label_id = ''head_'' @ obj_id obj, textLines = lines,
                isHeader = True, objColor = color, textColor = textColor,
                px = xmin, py = cy, tx = - 350, ty = cy,
                width = headerWidth, height = headerHeight, edge = Left \<rparr>
         else \<lparr> ref = r, label_id = ''head_'' @ obj_id obj, textLines = lines,
                isHeader = True, objColor = color, textColor = textColor,
                px = xmax, py = cy, tx = w d + 350, ty = cy,
                width = headerWidth, height = headerHeight, edge = Right \<rparr>)"

text \<open>
  The label of detail \<open>dIdx\<close> of an entity, from the entity's header label: it takes the
  header's side and colour, and its target starts beside and below the header's.
\<close>

definition detailLabel ::
  "dims \<Rightarrow> LayoutLabel \<Rightarrow> BlueprintObject \<Rightarrow> nat \<Rightarrow> BlueprintDetail \<Rightarrow> LayoutLabel" where
  "detailLabel d hdr obj dIdx det =
     (let dpx = snd (location_point det) * scaleX d;
          dpy = fst (location_point det) * scaleY d;
          detailTextLines = [toUpperCase (det_name det), description det];
          estHeight = 45
      in \<lparr> ref = ref hdr + 1 + dIdx,
           label_id = ''det_'' @ obj_id obj @ ''_'' @ showNat dIdx,
           textLines = detailTextLines, isHeader = False, objColor = objColor hdr,
           textColor = ''#334155'',
           px = dpx, py = dpy,
           tx = tx hdr + (if edge hdr = Left then - 50 else 50),
           ty = ty hdr + (real dIdx + 1) * 80,
           width = 240, height = estHeight, edge = edge hdr \<rparr>)"

text \<open>The labels that one entity pushes: its header, then one label per detail.\<close>

definition objectLabels :: "dims \<Rightarrow> nat \<Rightarrow> nat \<Rightarrow> BlueprintObject \<Rightarrow> LayoutLabel list" where
  "objectLabels d r idx obj =
     (let hdr = headerLabel d r idx obj
      in hdr # map (\<lambda>(dIdx, det). detailLabel d hdr obj dIdx det) (enumerate 0 (details obj)))"

text \<open>The \<^verbatim>\<open>forEach\<close> over the visible entities, with the array \<^verbatim>\<open>labels\<close> built so far.\<close>

fun pushLabels ::
  "dims \<Rightarrow> nat \<Rightarrow> LayoutLabel list \<Rightarrow> BlueprintObject list \<Rightarrow> LayoutLabel list" where
  "pushLabels d idx labels [] = labels"
| "pushLabels d idx labels (obj # objs) =
     pushLabels d (Suc idx) (labels @ objectLabels d (length labels) idx obj) objs"

text \<open>
  The solver moves the label objects of \<^verbatim>\<open>leftItems\<close> and \<^verbatim>\<open>rightItems\<close>, which are
  the objects of \<^verbatim>\<open>labels\<close>: a label of \<^verbatim>\<open>labels\<close> is read back from the solved items by
  its \<open>ref\<close>.
\<close>

definition writeBack :: "LayoutLabel list \<Rightarrow> LayoutLabel \<Rightarrow> LayoutLabel" where
  "writeBack solved l = (case find (\<lambda>m. ref m = ref l) solved of None \<Rightarrow> l | Some m \<Rightarrow> m)"

definition layout ::
  "AnalysisResult option \<Rightarrow> BlueprintObject list \<Rightarrow> dims \<Rightarrow> LayoutLabel list" where
  "layout data visible d =
     (case data of
        None \<Rightarrow> []
      | Some _ \<Rightarrow>
          (let labels = pushLabels d 0 [] visible;
               leftItems = filter (\<lambda>l. edge l = Left) labels;
               rightItems = filter (\<lambda>l. edge l = Right) labels;
               solvedLeft = laidOut (solve1DLayout leftItems True
                                       (- MARGIN_Y + 100) (h d + MARGIN_Y - 100));
               solvedRight = laidOut (solve1DLayout rightItems True
                                        (- MARGIN_Y + 100) (h d + MARGIN_Y - 100))
           in map (writeBack (solvedLeft @ solvedRight)) labels))"

subsection \<open>Render loop\<close>

text \<open>
  One frame is the list of what \<^verbatim>\<open>render\<close> draws, in order. Each constructor stands for
  one group of canvas calls: the media frame or the loading placeholder, the grid, the
  outline and label strip of a live detection, the box of a committed entity with its
  corner accents, its dashed trajectory, and a label box with its connector line.
\<close>

datatype draw_op =
    DrawMedia
  | DrawPlaceholder
  | DrawGrid
  | LiveBox string box
  | EntityBox string box
  | TrajectoryLine string "(real \<times> real) list"
  | LabelOp LayoutLabel "(real \<times> real) list"

text \<open>
  The callback of \<^verbatim>\<open>liveDetections.forEach\<close>: a detection of a video whose capture
  time is more than 1.2 s from the current time is skipped.
\<close>

definition drawLiveDetection :: "bool \<Rightarrow> real \<Rightarrow> dims \<Rightarrow> LiveDetection \<Rightarrow> draw_op list" where
  "drawLiveDetection isVideo t d det =
     (if isVideo \<and> live_timestamp det \<noteq> None
         \<and> \<bar>t - the (live_timestamp det)\<bar> > 1.2
      then []
      else [LiveBox (toUpperCase (live_label det)) (scaleBox d (live_box_2d det))])"

text \<open>The callback of \<^verbatim>\<open>visibleObjects.forEach\<close> in \<^verbatim>\<open>render\<close>.\<close>

definition drawObject :: "dims \<Rightarrow> nat \<times> BlueprintObject \<Rightarrow> draw_op list" where
  "drawObject d io =
     (let idx = fst io;
          obj = snd io;
          color = PALETTE ! (idx mod length PALETTE)
      in EntityBox color (scaleBox d (box_2d obj))
         # (case tracking obj of
              None \<Rightarrow> []
            | Some tr \<Rightarrow>
                if length (trajectory tr) > 1
                then [TrajectoryLine color
                        (map (\<lambda>p. (snd p * scaleX d, fst p * scaleY d)) (trajectory tr))]
                else []))"

text \<open>
  The callback of \<^verbatim>\<open>layout.forEach\<close>: the connector runs from the anchor to the channel
  beside the medium, along the channel to the target's height, and into the label.
\<close>

definition drawLabel :: "dims \<Rightarrow> LayoutLabel \<Rightarrow> draw_op" where
  "drawLabel d lbl =
     (let elbowX = (if edge lbl = Left then - 50 else w d + 50)
      in LabelOp lbl [(px lbl, py lbl), (elbowX, py lbl), (elbowX, ty lbl), (tx lbl, ty lbl)])"

text \<open>
  \<^verbatim>\<open>render\<close> with a canvas present. \<open>videoAttached\<close> is \<^verbatim>\<open>videoRef?.current\<close> being set and
  \<open>mediaReady\<close> is \<^verbatim>\<open>vid.readyState >= 2\<close> for a video, \<^verbatim>\<open>img.complete\<close> with a positive
  width for an image.
\<close>

definition render ::
  "bool \<Rightarrow> bool \<Rightarrow> bool \<Rightarrow> dims \<Rightarrow> real \<Rightarrow> AnalysisResult option \<Rightarrow> LiveDetection list
   \<Rightarrow> BlueprintObject list \<Rightarrow> LayoutLabel list \<Rightarrow> draw_op list" where
  "render isVideo videoAttached mediaReady d t data liveDetections visible lay =
     (if isVideo \<and> videoAttached
      then (if mediaReady then [DrawMedia] else [DrawPlaceholder])
      else (if mediaReady then [DrawMedia] else []))
     @ [DrawGrid]
     @ (if liveDetections \<noteq> []
        then concat (map (drawLiveDetection isVideo t d) liveDetections) else [])
     @ (if data \<noteq> None \<and> liveDetections = []
        then concat (map (drawObject d) (enumerate 0 visible)) @ map (drawLabel d) lay
        else [])"

text \<open>
  The frame for given props and state: \<^verbatim>\<open>visibleObjects\<close> and \<^verbatim>\<open>layout\<close> are the memoized
  values that \<^verbatim>\<open>render\<close> reads.
\<close>

definition renderFrame ::
  "AnalysisResult option \<Rightarrow> LiveDetection list \<Rightarrow> real \<Rightarrow> bool \<Rightarrow> bool \<Rightarrow> bool
   \<Rightarrow> canvas_state \<Rightarrow> draw_op list" where
  "renderFrame data liveDetections detailLevel isVideo videoAttached mediaReady st =
     (let visible = visibleObjects data detailLevel isVideo (currentTime st);
          lay = layout data visible (imgDims st)
      in render isVideo videoAttached mediaReady (imgDims st) (currentTime st) data
           liveDetections visible lay)"

subsection \<open>The main panel of the application\<close>

text \<open>
  \<^verbatim>\<open>App\<close> shows one of three things in its main panel. With the camera active it shows
  the camera feed and, over it, one HUD box per live detection, placed in percent of the
  feed; the canvas component is not mounted then. With the camera off and a preview
  present it mounts the canvas, with \<^verbatim>\<open>isVideo\<close> set for a video file. Otherwise it shows
  the idle panel.
\<close>

datatype input_mode = FileInput | CameraInput

record hud_box =
  hud_label :: string
  hud_top :: real
  hud_left :: real
  hud_width :: real
  hud_height :: real

definition cameraHud :: "LiveDetection list \<Rightarrow> hud_box list" where
  "cameraHud liveDetections =
     map (\<lambda>det. case live_box_2d det of
                  (ymin, xmin, ymax, xmax) \<Rightarrow>
                    \<lparr> hud_label = live_label det, hud_top = ymin / 10, hud_left = xmin / 10,
                      hud_width = (xmax - xmin) / 10, hud_height = (ymax - ymin) / 10 \<rparr>)
         liveDetections"

datatype main_view =
    CameraFeed "hud_box list"
  | Canvas "draw_op list"
  | IdlePanel

text \<open>
  \<open>imagePreview\<close> is a string or \<^verbatim>\<open>null\<close>; as a condition, \<^verbatim>\<open>null\<close> and the empty string
  are false. The last three arguments belong to the mounted canvas.
\<close>

definition mainView ::
  "input_mode \<Rightarrow> bool \<Rightarrow> string option \<Rightarrow> bool \<Rightarrow> AnalysisResult option
   \<Rightarrow> LiveDetection list \<Rightarrow> real \<Rightarrow> bool \<Rightarrow> bool \<Rightarrow> canvas_state \<Rightarrow> main_view list" where
  "mainView inputMode isCameraActive imagePreview isVideoFile analysisData liveDetections
     detailLevel videoAttached mediaReady st =
     (let hasPreview = (imagePreview \<noteq> None \<and> imagePreview \<noteq> Some [])
      in (if inputMode = CameraInput \<and> isCameraActive
          then [CameraFeed (cameraHud liveDetections)] else [])
         @ (if \<not> isCameraActive \<and> hasPreview
            then [Canvas (renderFrame analysisData liveDetections detailLevel isVideoFile
                            videoAttached mediaReady st)]
            else [])
         @ (if \<not> isCameraActive \<and> \<not> hasPreview then [IdlePanel] else []))"

subsection \<open>Notions used to state the properties\<close>


text \<open>A non-empty string of decimal digits, and the number it denotes.\<close>

definition isDecimalDigit :: "char \<Rightarrow> bool" where
  "isDecimalDigit c = (48 \<le> (of_char c :: nat) \<and> (of_char c :: nat) \<le> 57)"

definition isDigits :: "string \<Rightarrow> bool" where
  "isDigits ds = (ds \<noteq> [] \<and> list_all isDecimalDigit ds)"

definition decimalValue :: "string \<Rightarrow> nat" where
  "decimalValue ds = foldl (\<lambda>acc c. 10 * acc + ((of_char c :: nat) - 48)) 0 ds"

text \<open>What a frame draws for committed analysis entities, and for live detections.\<close>

fun committedOp :: "draw_op \<Rightarrow> bool" where
  "committedOp (EntityBox color b) = True"
| "committedOp (TrajectoryLine color pts) = True"
| "committedOp (LabelOp lbl pts) = True"
| "committedOp op = False"

fun liveOp :: "draw_op \<Rightarrow> bool" where
  "liveOp (LiveBox text b) = True"
| "liveOp op = False"

text \<open>An entity with a given id and timestamp, and a live detection captured at a given time.\<close>

definition entityAt :: "string \<Rightarrow> string option \<Rightarrow> BlueprintObject" where
  "entityAt i ts =
     \<lparr> obj_id = i, name = i, box_2d = (100, 100, 200, 200), material = ''steel'',
       details = [], timestamp = ts, biometrics = None, tracking = None \<rparr>"

definition detectionAt :: "real option \<Rightarrow> LiveDetection" where
  "detectionAt ts = \<lparr> live_label = ''car'', live_box_2d = (10, 20, 30, 40), live_timestamp = ts \<rparr>"

text \<open>
  The interval that a label occupies along the layout axis is its target position plus
  and minus half its size. \<open>intervalOverlap\<close> is the length of the common part of two
  such intervals; it is negative when there is a gap between them.
\<close>

definition intervalOverlap :: "bool \<Rightarrow> LayoutLabel \<Rightarrow> LayoutLabel \<Rightarrow> real" where
  "intervalOverlap isVertical a b =
     min (targetPos isVertical a + axisSize isVertical a / 2)
         (targetPos isVertical b + axisSize isVertical b / 2)
     - max (targetPos isVertical a - axisSize isVertical a / 2)
           (targetPos isVertical b - axisSize isVertical b / 2)"

text \<open>A label whose interval ends exactly at a boundary of the band.\<close>

definition flushWithBand :: "bool \<Rightarrow> real \<Rightarrow> real \<Rightarrow> LayoutLabel \<Rightarrow> bool" where
  "flushWithBand isVertical minPos maxPos a =
     (targetPos isVertical a - axisSize isVertical a / 2 = minPos
      \<or> targetPos isVertical a + axisSize isVertical a / 2 = maxPos)"

text \<open>A label whose interval lies inside the band.\<close>

definition inBand :: "bool \<Rightarrow> real \<Rightarrow> real \<Rightarrow> LayoutLabel \<Rightarrow> bool" where
  "inBand isVertical minPos maxPos a =
     (minPos \<le> targetPos isVertical a - axisSize isVertical a / 2
      \<and> targetPos isVertical a + axisSize isVertical a / 2 \<le> maxPos)"

text \<open>
  No two neighbours of the list are closer than the minimum separation of the solver:
  half the sum of their sizes plus 10.
\<close>

fun adjSeparated :: "bool \<Rightarrow> LayoutLabel list \<Rightarrow> bool" where
  "adjSeparated isVertical (a # b # rest) =
     ((axisSize isVertical a + axisSize isVertical b) / 2 + 10
        \<le> targetPos isVertical b - targetPos isVertical a
      \<and> adjSeparated isVertical (b # rest))"
| "adjSeparated isVertical items = True"

text \<open>
  Label \<open>b\<close> lies after label \<open>a\<close> with at least the minimum separation between their
  targets.
\<close>

definition separated :: "bool \<Rightarrow> LayoutLabel \<Rightarrow> LayoutLabel \<Rightarrow> bool" where
  "separated isVertical a b =
     ((axisSize isVertical a + axisSize isVertical b) / 2 + 10
        \<le> targetPos isVertical b - targetPos isVertical a)"

text \<open>A detail label of the left side with a given anchor height and target height.\<close>

definition labelAt :: "nat \<Rightarrow> real \<Rightarrow> real \<Rightarrow> LayoutLabel" where
  "labelAt r anchorY targetY =
     \<lparr> ref = r, label_id = ''det'', textLines = [], isHeader = False,
       objColor = ''#1e40af'', textColor = ''#334155'',
       px = 0, py = anchorY, tx = - 400, ty = targetY,
       width = 240, height = 45, edge = Left \<rparr>"

text \<open>A coordinate of the normalized 0-1000 space, and an anchor inside the medium.\<close>

definition normalized :: "real \<Rightarrow> bool" where
  "normalized c = (0 \<le> c \<and> c \<le> 1000)"

fun boxNormalized :: "box \<Rightarrow> bool" where
  "boxNormalized (b0, b1, b2, b3) = (normalized b0 \<and> normalized b1 \<and> normalized b2 \<and> normalized b3)"

definition detailNormalized :: "BlueprintDetail \<Rightarrow> bool" where
  "detailNormalized det = (normalized (fst (location_point det)) \<and> normalized (snd (location_point det)))"

definition anchorInMedia :: "dims \<Rightarrow> LayoutLabel \<Rightarrow> bool" where
  "anchorInMedia d l = (0 \<le> px l \<and> px l \<le> w d \<and> 0 \<le> py l \<and> py l \<le> h d)"

text \<open>An entity with a box inside the normalized space and one detail at a given point.\<close>

definition entityWithDetail :: "real \<times> real \<Rightarrow> BlueprintObject" where
  "entityWithDetail p =
     \<lparr> obj_id = ''a'', name = ''a'', box_2d = (100, 100, 200, 200), material = ''steel'',
       details = [\<lparr> det_name = ''mark'', location_point = p, description = ''dent'' \<rparr>],
       timestamp = None, biometrics = None, tracking = None \<rparr>"

text \<open>An entity without details whose box lies in the right half.\<close>

definition entityOnRight :: "string \<Rightarrow> BlueprintObject" where
  "entityOnRight i =
     \<lparr> obj_id = i, name = i, box_2d = (100, 800, 200, 900), material = ''glass'',
       details = [], timestamp = None, biometrics = None, tracking = None \<rparr>"

text \<open>
  A label in the margin of its side: left of the medium for the left side, right of it
  for the right side.
\<close>

definition inSideMargin :: "dims \<Rightarrow> LayoutLabel \<Rightarrow> bool" where
  "inSideMargin d l = (edge l = Left \<and> tx l < 0 \<or> edge l = Right \<and> w d < tx l)"

text \<open>What a vertical run of the solver never writes: every field but \<open>ty\<close>.\<close>

definition fixedPart :: "LayoutLabel \<Rightarrow> LayoutLabel" where
  "fixedPart l = l\<lparr> ty := 0 \<rparr>"

text \<open>
  A label as the layout computation makes it: anchored inside the medium, in the margin
  of its side, and at most 60 high.
\<close>

definition placed :: "dims \<Rightarrow> LayoutLabel \<Rightarrow> bool" where
  "placed d l = (anchorInMedia d l \<and> inSideMargin d l \<and> 0 \<le> height l \<and> height l \<le> 60)"

section \<open>Properties\<close>

subsection \<open>Viewport scale bounds\<close>










subsection \<open>Pan and reset\<close>

lemma run_snoc: "run (evs @ [e]) = handle (run evs) e"
  by (simp add: run_def)

text \<open>
  Claim C9. The reset action sets the offset to exactly (0, 0) and the scale to 0.45, the
  scale of the first render, whatever the state was: in particular after a mouse drag
  that moved the view by (50, -30), and at the end of any sequence of events.
\<close>

theorem reset_restores_default_view:
  "offset (resetView st) = \<lparr> xc = 0, yc = 0 \<rparr>
   \<and> scale (resetView st) = 0.45
   \<and> scale (resetView st) = scale initial_state
   \<and> (let panned = handleMouseMove (handleMouseDown st \<lparr> xc = x0, yc = y0 \<rparr>)
                                     \<lparr> xc = x0 + 50, yc = y0 - 30 \<rparr>
      in offset panned = \<lparr> xc = xc (offset st) + 50, yc = yc (offset st) - 30 \<rparr>
         \<and> offset (resetView panned) = \<lparr> xc = 0, yc = 0 \<rparr>
         \<and> scale (resetView panned) = 0.45)
   \<and> offset (run (evs @ [ResetClick])) = \<lparr> xc = 0, yc = 0 \<rparr>
   \<and> scale (run (evs @ [ResetClick])) = 0.45"
proof -
  have reset: "offset (resetView s) = \<lparr> xc = 0, yc = 0 \<rparr> \<and> scale (resetView s) = 0.45" for s
    by (simp add: resetView_def)
  have init: "scale initial_state = 0.45"
    by (simp add: initial_state_def)
  have pan: "offset (handleMouseMove (handleMouseDown st \<lparr> xc = x0, yc = y0 \<rparr>)
                                     \<lparr> xc = x0 + 50, yc = y0 - 30 \<rparr>)
             = \<lparr> xc = xc (offset st) + 50, yc = yc (offset st) - 30 \<rparr>"
    by (simp add: handleMouseMove_def handleMouseDown_def)
  show ?thesis
    unfolding Let_def run_snoc handle.simps
    using reset init pan by (simp only: simp_thms)
qed

subsection \<open>Coordinate round trip\<close>

text \<open>
  Claim C5. For positive media dimensions, a box of the normalized space is scaled to
  media space by \<open>x * W / 1000\<close> and \<open>y * H / 1000\<close>, and dividing the result by the same
  scale factors gives the original box back. Numbers are exact here, so the round trip
  is exact.
\<close>

theorem scaleBox_round_trip:
  assumes "0 < w d" and "0 < h d"
    and "scaleBox d (b0, b1, b2, b3) = (ymin, xmin, ymax, xmax)"
  shows "ymin = b0 * h d / 1000 \<and> xmin = b1 * w d / 1000
         \<and> ymax = b2 * h d / 1000 \<and> xmax = b3 * w d / 1000
         \<and> ymin / scaleY d = b0 \<and> xmin / scaleX d = b1
         \<and> ymax / scaleY d = b2 \<and> xmax / scaleX d = b3"
proof -
  from assms(3) have e: "ymin = b0 * scaleY d" "xmin = b1 * scaleX d"
      "ymax = b2 * scaleY d" "xmax = b3 * scaleX d"
    by (simp_all add: Let_def)
  from assms(1,2) have nz: "scaleX d \<noteq> 0" "scaleY d \<noteq> 0"
    by (simp_all add: scaleX_def scaleY_def)
  have fwd: "ymin = b0 * h d / 1000 \<and> xmin = b1 * w d / 1000
         \<and> ymax = b2 * h d / 1000 \<and> xmax = b3 * w d / 1000"
    by (simp add: e scaleX_def scaleY_def)
  have inv: "ymin / scaleY d = b0 \<and> xmin / scaleX d = b1
         \<and> ymax / scaleY d = b2 \<and> xmax / scaleX d = b3"
    using nz by (simp add: e)
  from fwd inv show ?thesis by blast
qed

text \<open>A 1920 by 1080 medium and the box (100, 250, 500, 1000).\<close>

theorem scaleBox_round_trip_witness:
  "0 < w \<lparr> w = 1920, h = 1080 \<rparr> \<and> 0 < h \<lparr> w = 1920, h = 1080 \<rparr>
   \<and> scaleBox \<lparr> w = 1920, h = 1080 \<rparr> (100, 250, 500, 1000) = (108, 480, 540, 1920)
   \<and> 108 / scaleY \<lparr> w = 1920, h = 1080 \<rparr> = 100
   \<and> 480 / scaleX \<lparr> w = 1920, h = 1080 \<rparr> = 250
   \<and> 540 / scaleY \<lparr> w = 1920, h = 1080 \<rparr> = 500
   \<and> 1920 / scaleX \<lparr> w = 1920, h = 1080 \<rparr> = 1000"
proof -
  have a: "0 < w \<lparr> w = 1920, h = 1080 \<rparr>" and b: "0 < h \<lparr> w = 1920, h = 1080 \<rparr>"
    by simp_all
  have c: "scaleBox \<lparr> w = 1920, h = 1080 \<rparr> (100, 250, 500, 1000) = (108, 480, 540, 1920)"
    by (simp add: scaleX_def scaleY_def Let_def)
  from scaleBox_round_trip [OF a b c] a b c show ?thesis by blast
qed

subsection \<open>Temporal visibility\<close>

lemma split_no_sep: "sep \<notin> set xs \<Longrightarrow> split sep xs = [xs]"
  by (induction xs) auto

lemma split_at_sep: "sep \<notin> set xs \<Longrightarrow> split sep (xs @ sep # ys) = xs # split sep ys"
  by (induction xs) auto

lemma digit_not_colon: "isDecimalDigit c \<Longrightarrow> c \<noteq> CHR '':''"
  by (auto simp: isDecimalDigit_def)

lemma digits_no_colon: "list_all isDecimalDigit ds \<Longrightarrow> CHR '':'' \<notin> set ds"
  using digit_not_colon by (auto simp: list_all_iff)

lemma split_mmss:
  assumes "list_all isDecimalDigit mm" and "list_all isDecimalDigit ss"
  shows "split CHR '':'' (mm @ '':'' @ ss) = [mm, ss]"
  using assms by (simp add: split_at_sep split_no_sep digits_no_colon)

lemma digitValue_decimal:
  "isDecimalDigit c \<Longrightarrow> digitValue c = Some ((of_char c :: nat) - 48)"
  by (simp add: isDecimalDigit_def digitValue_def Let_def)

lemma isRadixDigit_decimal: "isDecimalDigit c \<Longrightarrow> isRadixDigit 10 c"
  by (auto simp: isRadixDigit_def digitValue_decimal isDecimalDigit_def)

lemma digit_not_space: "isDecimalDigit c \<Longrightarrow> \<not> isWhiteSpace c"
  by (auto simp: isDecimalDigit_def isWhiteSpace_def)

lemma digit_not_sign: "isDecimalDigit c \<Longrightarrow> c \<noteq> CHR ''-'' \<and> c \<noteq> CHR ''+''"
  by (auto simp: isDecimalDigit_def)

lemma digit_not_x: "isDecimalDigit c \<Longrightarrow> c \<noteq> CHR ''x'' \<and> c \<noteq> CHR ''X''"
  by (auto simp: isDecimalDigit_def)

lemma digits_not_hex:
  assumes "list_all isDecimalDigit ds"
  shows "take 2 ds \<noteq> ''0x'' \<and> take 2 ds \<noteq> ''0X''"
proof (cases ds)
  case Nil
  then show ?thesis by simp
next
  case (Cons a as)
  show ?thesis
  proof (cases as)
    case Nil
    with Cons show ?thesis by simp
  next
    case (Cons b bs)
    with \<open>ds = a # as\<close> assms have "isDecimalDigit b" by simp
    then have "b \<noteq> CHR ''x'' \<and> b \<noteq> CHR ''X''" by (rule digit_not_x)
    with Cons \<open>ds = a # as\<close> show ?thesis by simp
  qed
qed

lemma radixValue_decimal_gen:
  "list_all isDecimalDigit ds \<Longrightarrow>
   foldl (\<lambda>acc c. acc * 10 + the (digitValue c)) a ds
   = foldl (\<lambda>acc c. 10 * acc + ((of_char c :: nat) - 48)) a ds"
  by (induction ds arbitrary: a) (simp_all add: digitValue_decimal mult.commute)

lemma radixValue_decimal: "list_all isDecimalDigit ds \<Longrightarrow> radixValue 10 ds = decimalValue ds"
  unfolding radixValue_def decimalValue_def by (rule radixValue_decimal_gen)

lemma parseInt_digits:
  assumes "isDigits ds"
  shows "parseInt ds = Some (int (decimalValue ds))"
proof -
  from assms obtain c cs where ds: "ds = c # cs" and all: "list_all isDecimalDigit ds"
    by (cases ds) (auto simp: isDigits_def)
  then have c: "isDecimalDigit c" by simp
  have ws: "dropWhile isWhiteSpace ds = ds"
    using c digit_not_space by (simp add: ds)
  have sg: "hd ds \<noteq> CHR ''-''" "hd ds \<noteq> CHR ''+''"
    using c digit_not_sign by (simp_all add: ds)
  have hx: "\<not> (take 2 ds = ''0x'' \<or> take 2 ds = ''0X'')"
    using digits_not_hex [OF all] by simp
  have tw: "takeWhile (isRadixDigit 10) ds = ds"
    using all isRadixDigit_decimal by (simp add: takeWhile_eq_all_conv list_all_iff)
  have ne: "ds \<noteq> []" by (simp add: ds)
  show ?thesis
    unfolding parseInt_def Let_def ws
    using sg hx ne by (simp add: tw radixValue_decimal [OF all])
qed

lemma parseTimestamp_mmss:
  assumes "isDigits mm" and "isDigits ss"
  shows "parseTimestamp (Some (mm @ '':'' @ ss)) = Some (int (60 * decimalValue mm + decimalValue ss))"
proof -
  from assms have a: "list_all isDecimalDigit mm" "list_all isDecimalDigit ss"
    by (simp_all add: isDigits_def)
  have sp: "split CHR '':'' (mm @ '':'' @ ss) = [mm, ss]"
    by (rule split_mmss [OF a])
  have ne: "mm @ '':'' @ ss \<noteq> []" by simp
  show ?thesis
    unfolding parseTimestamp_def Let_def
    using sp ne parseInt_digits [OF assms(1)] parseInt_digits [OF assms(2)]
    by simp
qed

lemma timestampFilter_absent: "timestamp obj = None \<Longrightarrow> timestampFilter t obj"
  by (simp add: timestampFilter_def)

lemma timestampFilter_mmss:
  assumes "timestamp obj = Some (mm @ '':'' @ ss)" and "isDigits mm" and "isDigits ss"
  shows "timestampFilter t obj \<longleftrightarrow> \<bar>t - real (60 * decimalValue mm + decimalValue ss)\<bar> < 0.6"
proof -
  have p: "parseTimestamp (timestamp obj) = Some (int (60 * decimalValue mm + decimalValue ss))"
    unfolding assms(1) by (rule parseTimestamp_mmss [OF assms(2,3)])
  have "int (60 * decimalValue mm + decimalValue ss) \<noteq> - 1" by linarith
  then show ?thesis
    unfolding timestampFilter_def Let_def p using assms(1) by simp
qed

lemma visibleObjects_detail_30:
  assumes "30 \<le> detailLevel"
  shows "visibleObjects (Some data) detailLevel isVideo t
         = (let shown = filter (\<lambda>obj. isVideo \<longrightarrow> timestampFilter t obj) (objects data)
            in if detailLevel < 100
               then map (capDetails (nat (max 1 \<lfloor>detailLevel / 20\<rfloor>))) shown
               else shown)"
proof -
  have f: "(if isVideo then filter (timestampFilter t) (objects data) else objects data)
           = filter (\<lambda>obj. isVideo \<longrightarrow> timestampFilter t obj) (objects data)"
    by simp
  from assms have "\<not> detailLevel < 30" by simp
  then show ?thesis
    unfolding visibleObjects_def Let_def option.case f by simp
qed

text \<open>
  Claim C2, amended. At a detail level of at least 30 the visible entities are exactly
  the entities that pass the temporal test, in order (below level 100 each with its
  details cut to a prefix). For a static image every entity passes. For a video an
  entity with no timestamp passes at every time, and an entity whose timestamp is
  \<open>MM:SS\<close> (two non-empty digit strings) passes exactly while the playback time is less
  than 0.6 s from \<open>60 * MM + SS\<close>.
\<close>

theorem visible_objects_temporal_filter:
  assumes "30 \<le> detailLevel"
  shows "visibleObjects (Some data) detailLevel isVideo t
         = (let shown = filter (\<lambda>obj. isVideo \<longrightarrow> timestampFilter t obj) (objects data)
            in if detailLevel < 100
               then map (capDetails (nat (max 1 \<lfloor>detailLevel / 20\<rfloor>))) shown
               else shown)
         \<and> (\<forall>obj. timestamp obj = None \<longrightarrow> timestampFilter t obj)
         \<and> (\<forall>obj mm ss.
               timestamp obj = Some (mm @ '':'' @ ss) \<and> isDigits mm \<and> isDigits ss \<longrightarrow>
               (timestampFilter t obj
                \<longleftrightarrow> \<bar>t - real (60 * decimalValue mm + decimalValue ss)\<bar> < 0.6))"
  using visibleObjects_detail_30 [OF assms] timestampFilter_absent timestampFilter_mmss
  by blast

lemma isDigits_00: "isDigits ''00''"
  by (simp add: isDigits_def isDecimalDigit_def)

lemma isDigits_10: "isDigits ''10''"
  by (simp add: isDigits_def isDecimalDigit_def)

lemma seconds_00_10: "60 * decimalValue ''00'' + decimalValue ''10'' = 10"
  by (simp add: decimalValue_def)

text \<open>
  The entity with timestamp \<open>00:10\<close> passes at 10.5 s and at 9.5 s and not at 20 s; in a
  static image it is shown at 20 s all the same.
\<close>

theorem visible_objects_temporal_filter_witness:
  "(30 :: real) \<le> 100
   \<and> timestamp (entityAt ''a'' (Some ''00:10'')) = Some (''00'' @ '':'' @ ''10'')
   \<and> isDigits ''00'' \<and> isDigits ''10''
   \<and> timestampFilter 10.5 (entityAt ''a'' (Some ''00:10''))
   \<and> timestampFilter 9.5 (entityAt ''a'' (Some ''00:10''))
   \<and> \<not> timestampFilter 20 (entityAt ''a'' (Some ''00:10''))
   \<and> timestampFilter 20 (entityAt ''b'' None)
   \<and> visibleObjects (Some \<lparr> objects = [entityAt ''a'' (Some ''00:10''), entityAt ''b'' None] \<rparr>)
        100 True 20 = [entityAt ''b'' None]
   \<and> visibleObjects (Some \<lparr> objects = [entityAt ''a'' (Some ''00:10''), entityAt ''b'' None] \<rparr>)
        100 False 20 = [entityAt ''a'' (Some ''00:10''), entityAt ''b'' None]"
proof -
  let ?a = "entityAt ''a'' (Some ''00:10'')"
  let ?b = "entityAt ''b'' None"
  let ?data = "\<lparr> objects = [?a, ?b] \<rparr>"
  have h: "(30 :: real) \<le> 100" by simp
  have ts: "timestamp ?a = Some (''00'' @ '':'' @ ''10'')" by (simp add: entityAt_def)
  have tb: "timestamp ?b = None" by (simp add: entityAt_def)
  have car: "timestampFilter t ?a \<longleftrightarrow> \<bar>t - real (60 * decimalValue ''00'' + decimalValue ''10'')\<bar> < 0.6"
    for t
    using visible_objects_temporal_filter [OF h, of ?data True t] ts isDigits_00 isDigits_10
    by blast
  have a1: "timestampFilter 10.5 ?a" unfolding car seconds_00_10 by simp
  have a2: "timestampFilter 9.5 ?a" unfolding car seconds_00_10 by simp
  have a3: "\<not> timestampFilter 20 ?a" unfolding car seconds_00_10 by simp
  have b3: "timestampFilter 20 ?b"
    using visible_objects_temporal_filter [OF h, of ?data True 20] tb by blast
  have v1: "visibleObjects (Some ?data) 100 True 20 = [?b]"
    using visible_objects_temporal_filter [OF h, of ?data True 20] a3 b3
    by (simp add: Let_def)
  have v2: "visibleObjects (Some ?data) 100 False 20 = [?a, ?b]"
    using visible_objects_temporal_filter [OF h, of ?data False 20]
    by (simp add: Let_def)
  from h ts isDigits_00 isDigits_10 a1 a2 a3 b3 v1 v2 show ?thesis by (intro conjI)
qed

text \<open>
  Claim C2 as stated fails below detail level 30, where only a prefix of the entities is
  kept: of four entities of a static image, level 15 shows the first two.
\<close>

theorem low_detail_hides_entities_of_static_image:
  "map obj_id
     (visibleObjects
        (Some \<lparr> objects = [entityAt ''a'' None, entityAt ''b'' None,
                            entityAt ''c'' None, entityAt ''d'' None] \<rparr>)
        15 False 0)
   = [''a'', ''b'']"
  by (simp add: visibleObjects_def Let_def capDetails_def entityAt_def)

text \<open>
  Claim C10. The timestamp \<open>ab:cd\<close> splits into two parts that \<^verbatim>\<open>parseInt\<close> cannot read,
  so \<^verbatim>\<open>parseTimestamp\<close> is \<^verbatim>\<open>NaN\<close> rather than -1 and the entity is visible at no
  playback time, while the same entity with no timestamp, or with the timestamp
  \<open>abcd\<close>, is visible at all times.
\<close>

theorem garbled_timestamp_never_visible:
  "parseTimestamp (Some ''ab:cd'') = None
   \<and> \<not> timestampFilter t (entityAt ''a'' (Some ''ab:cd''))
   \<and> visibleObjects (Some \<lparr> objects = [entityAt ''a'' (Some ''ab:cd'')] \<rparr>) 100 True t = []
   \<and> visibleObjects (Some \<lparr> objects = [entityAt ''a'' None] \<rparr>) 100 True t
       = [entityAt ''a'' None]
   \<and> parseTimestamp (Some ''abcd'') = Some (- 1)
   \<and> timestampFilter t (entityAt ''a'' (Some ''abcd''))"
proof -
  have p: "parseTimestamp (Some ''ab:cd'') = None" by code_simp
  have q: "parseTimestamp (Some ''abcd'') = Some (- 1)" by code_simp
  have f: "\<not> timestampFilter t (entityAt ''a'' (Some ''ab:cd''))"
    by (simp add: timestampFilter_def entityAt_def p)
  have g: "timestampFilter t (entityAt ''a'' (Some ''abcd''))"
    by (simp add: timestampFilter_def entityAt_def q)
  have n: "timestampFilter t (entityAt ''a'' None)"
    by (simp add: timestampFilter_def entityAt_def)
  have v: "visibleObjects (Some \<lparr> objects = [entityAt ''a'' (Some ''ab:cd'')] \<rparr>) 100 True t = []"
    using f by (simp add: visibleObjects_def)
  have u: "visibleObjects (Some \<lparr> objects = [entityAt ''a'' None] \<rparr>) 100 True t
           = [entityAt ''a'' None]"
    using n by (simp add: visibleObjects_def)
  from p f v u q g show ?thesis by (intro conjI)
qed

subsection \<open>Frames\<close>

lemma drawLiveDetection_live: "filter liveOp (drawLiveDetection isVideo t d det) = drawLiveDetection isVideo t d det"
  by (simp add: drawLiveDetection_def)

lemma drawLiveDetection_not_committed: "filter committedOp (drawLiveDetection isVideo t d det) = []"
  by (simp add: drawLiveDetection_def)

lemma live_ops_of_detections:
  "filter liveOp (concat (map (drawLiveDetection isVideo t d) dets))
   = concat (map (drawLiveDetection isVideo t d) dets)"
  by (induction dets) (simp_all add: drawLiveDetection_live)

lemma committed_ops_of_detections:
  "filter committedOp (concat (map (drawLiveDetection isVideo t d) dets)) = []"
  by (induction dets) (simp_all add: drawLiveDetection_not_committed)

lemma drawObject_committed: "filter committedOp (drawObject d io) = drawObject d io"
  by (simp add: drawObject_def Let_def split: option.splits)

lemma drawObject_not_live: "filter liveOp (drawObject d io) = []"
  by (simp add: drawObject_def Let_def split: option.splits)

lemma drawObject_nonempty: "drawObject d io \<noteq> []"
  by (simp add: drawObject_def Let_def)

lemma committed_ops_of_objects:
  "filter committedOp (concat (map (drawObject d) ios)) = concat (map (drawObject d) ios)"
  by (induction ios) (simp_all add: drawObject_committed)

lemma live_ops_of_objects: "filter liveOp (concat (map (drawObject d) ios)) = []"
  by (induction ios) (simp_all add: drawObject_not_live)

lemma committed_ops_of_labels: "filter committedOp (map (drawLabel d) lay) = map (drawLabel d) lay"
  by (induction lay) (simp_all add: drawLabel_def Let_def)

lemma live_ops_of_labels: "filter liveOp (map (drawLabel d) lay) = []"
  by (induction lay) (simp_all add: drawLabel_def Let_def)

lemma render_live_ops:
  "filter liveOp (render isVideo va mr d t data dets vis lay)
   = concat (map (drawLiveDetection isVideo t d) dets)"
  by (simp add: render_def live_ops_of_detections live_ops_of_objects live_ops_of_labels)

lemma render_committed_ops:
  "filter committedOp (render isVideo va mr d t data dets vis lay)
   = (if data \<noteq> None \<and> dets = []
      then concat (map (drawObject d) (enumerate 0 vis)) @ map (drawLabel d) lay else [])"
  by (simp add: render_def committed_ops_of_detections committed_ops_of_objects
      committed_ops_of_labels)

text \<open>
  Claim C3, amended. In the canvas of a video file, a live detection that carries a
  capture time is skipped exactly when the current time is more than 1.2 s from it, and
  drawn as a live box otherwise; the live boxes of a frame are those of the detections
  not skipped. A detection captured at 5.0 s is drawn in the frame at 5.5 s and absent
  from the frame at 7.0 s. The application mounts this canvas, with \<^verbatim>\<open>isVideo\<close> set,
  when the camera is off and the preview is a video file.
\<close>

theorem stale_live_detection_discarded:
  assumes "live_timestamp det = Some ts"
  shows "(drawLiveDetection True t d det = [] \<longleftrightarrow> \<bar>t - ts\<bar> > 1.2)
         \<and> (\<bar>t - ts\<bar> \<le> 1.2 \<longrightarrow>
              drawLiveDetection True t d det
              = [LiveBox (toUpperCase (live_label det)) (scaleBox d (live_box_2d det))])
         \<and> filter liveOp (render True va mr d t data (det # dets) vis lay)
             = drawLiveDetection True t d det @ concat (map (drawLiveDetection True t d) dets)
         \<and> filter liveOp (render True va mr d 5.5 data [detectionAt (Some 5)] vis lay)
             = [LiveBox (toUpperCase ''car'') (scaleBox d (10, 20, 30, 40))]
         \<and> filter liveOp (render True va mr d 7 data [detectionAt (Some 5)] vis lay) = []
         \<and> (src \<noteq> [] \<longrightarrow>
              mainView inputMode False (Some src) True data (det # dets) detailLevel va mr st
              = [Canvas (renderFrame data (det # dets) detailLevel True va mr st)])"
proof (intro conjI impI)
  show "drawLiveDetection True t d det = [] \<longleftrightarrow> \<bar>t - ts\<bar> > 1.2"
    using assms by (simp add: drawLiveDetection_def)
  show "drawLiveDetection True t d det
        = [LiveBox (toUpperCase (live_label det)) (scaleBox d (live_box_2d det))]"
    if "\<bar>t - ts\<bar> \<le> 1.2"
    using assms that by (simp add: drawLiveDetection_def)
  show "filter liveOp (render True va mr d t data (det # dets) vis lay)
        = drawLiveDetection True t d det @ concat (map (drawLiveDetection True t d) dets)"
    by (simp add: render_live_ops)
  show "filter liveOp (render True va mr d 5.5 data [detectionAt (Some 5)] vis lay)
        = [LiveBox (toUpperCase ''car'') (scaleBox d (10, 20, 30, 40))]"
    by (simp add: render_live_ops drawLiveDetection_def detectionAt_def)
  show "filter liveOp (render True va mr d 7 data [detectionAt (Some 5)] vis lay) = []"
    by (simp add: render_live_ops drawLiveDetection_def detectionAt_def)
  show "mainView inputMode False (Some src) True data (det # dets) detailLevel va mr st
        = [Canvas (renderFrame data (det # dets) detailLevel True va mr st)]"
    if "src \<noteq> []"
    using that by (simp add: mainView_def Let_def)
qed

text \<open>
  The detection captured at 5.0 s, on a 1000 by 1000 medium, and the view of the video
  file \<open>clip.mp4\<close>.
\<close>

theorem stale_live_detection_discarded_witness:
  "live_timestamp (detectionAt (Some 5)) = Some 5
   \<and> drawLiveDetection True 5.5 \<lparr> w = 1000, h = 1000 \<rparr> (detectionAt (Some 5))
       = [LiveBox ''CAR'' (10, 20, 30, 40)]
   \<and> drawLiveDetection True 7 \<lparr> w = 1000, h = 1000 \<rparr> (detectionAt (Some 5)) = []
   \<and> mainView FileInput False (Some ''clip.mp4'') True None [detectionAt (Some 5)] 50
        False True (timeUpdate initial_state 7)
       = [Canvas (renderFrame None [detectionAt (Some 5)] 50 True False True
                    (timeUpdate initial_state 7))]"
proof -
  let ?d = "\<lparr> w = 1000, h = 1000 \<rparr>"
  have ts: "live_timestamp (detectionAt (Some 5)) = Some 5" by (simp add: detectionAt_def)
  have up: "toUpperCase (live_label (detectionAt (Some 5))) = ''CAR''"
    by code_simp
  have bx: "scaleBox ?d (live_box_2d (detectionAt (Some 5))) = (10, 20, 30, 40)"
    by (simp add: detectionAt_def scaleX_def scaleY_def Let_def)
  have near: "\<bar>5.5 - 5 :: real\<bar> \<le> 1.2" by simp
  have far: "\<bar>7 - 5 :: real\<bar> > 1.2" by simp
  have a: "drawLiveDetection True 5.5 ?d (detectionAt (Some 5)) = [LiveBox ''CAR'' (10, 20, 30, 40)]"
    using stale_live_detection_discarded [OF ts, of "5.5" ?d] near unfolding up bx by blast
  have b: "drawLiveDetection True 7 ?d (detectionAt (Some 5)) = []"
    using stale_live_detection_discarded [OF ts, of 7 ?d] far by blast
  have src: "''clip.mp4'' \<noteq> []" by simp
  note inst = stale_live_detection_discarded
      [OF ts, where src = "''clip.mp4''" and inputMode = FileInput and data = None and dets = "[]"
         and detailLevel = 50 and va = False and mr = True and st = "timeUpdate initial_state 7"]
  from inst [THEN conjunct2, THEN conjunct2, THEN conjunct2, THEN conjunct2, THEN conjunct2] src
  have c: "mainView FileInput False (Some ''clip.mp4'') True None [detectionAt (Some 5)] 50
             False True (timeUpdate initial_state 7)
           = [Canvas (renderFrame None [detectionAt (Some 5)] 50 True False True
                        (timeUpdate initial_state 7))]"
    by (rule mp)
  from ts a b c show ?thesis by (intro conjI)
qed

text \<open>
  Claim C3 as stated fails in camera mode: with the camera active the application shows
  the camera feed with one HUD box per entry of the list and reads no time at all, so
  the detection captured at 5.0 s is still shown at 7.0 s. The canvas keeps it too when
  \<^verbatim>\<open>isVideo\<close> is not set.
\<close>

theorem camera_hud_draws_stale_detection:
  "mainView CameraInput True None False None [detectionAt (Some 5)] 50 False False
     (timeUpdate initial_state 7)
   = [CameraFeed [\<lparr> hud_label = ''car'', hud_top = 1, hud_left = 2,
                    hud_width = 2, hud_height = 2 \<rparr>]]
   \<and> drawLiveDetection False 7 \<lparr> w = 1000, h = 1000 \<rparr> (detectionAt (Some 5))
       = [LiveBox ''CAR'' (10, 20, 30, 40)]"
proof -
  have up: "toUpperCase ''car'' = ''CAR''" by code_simp
  have a: "mainView CameraInput True None False None [detectionAt (Some 5)] 50 False False
             (timeUpdate initial_state 7)
           = [CameraFeed [\<lparr> hud_label = ''car'', hud_top = 1, hud_left = 2,
                            hud_width = 2, hud_height = 2 \<rparr>]]"
    by (simp add: mainView_def cameraHud_def detectionAt_def Let_def)
  have b: "drawLiveDetection False 7 \<lparr> w = 1000, h = 1000 \<rparr> (detectionAt (Some 5))
           = [LiveBox ''CAR'' (10, 20, 30, 40)]"
    by (simp add: drawLiveDetection_def detectionAt_def up scaleX_def scaleY_def Let_def)
  from a b show ?thesis by (intro conjI)
qed

lemma PALETTE_length: "length PALETTE = 7"
  by (simp add: PALETTE_def)

lemma drawObject_explicit:
  "drawObject d io
   = EntityBox (PALETTE ! (fst io mod 7)) (scaleBox d (box_2d (snd io)))
     # (case tracking (snd io) of
          None \<Rightarrow> []
        | Some tr \<Rightarrow>
            if 1 < length (trajectory tr)
            then [TrajectoryLine (PALETTE ! (fst io mod 7))
                    (map (\<lambda>p. (snd p * (w d / 1000), fst p * (h d / 1000))) (trajectory tr))]
            else [])"
  by (simp add: drawObject_def Let_def PALETTE_length scaleX_def scaleY_def split: option.splits)

lemma drawLabel_explicit:
  "drawLabel d lbl
   = LabelOp lbl [(px lbl, py lbl),
                  (if edge lbl = Left then - 50 else w d + 50, py lbl),
                  (if edge lbl = Left then - 50 else w d + 50, ty lbl),
                  (tx lbl, ty lbl)]"
  by (simp add: drawLabel_def Let_def)

lemma drawLiveDetection_explicit:
  "drawLiveDetection isVideo t d det
   = (if isVideo \<and> live_timestamp det \<noteq> None \<and> 1.2 < \<bar>t - the (live_timestamp det)\<bar>
      then []
      else [LiveBox (toUpperCase (live_label det)) (scaleBox d (live_box_2d det))])"
  by (simp add: drawLiveDetection_def)

lemma entity_box_in_ops:
  assumes "i < length vis"
  shows "EntityBox (PALETTE ! (i mod 7)) (scaleBox d (box_2d (vis ! i)))
         \<in> set (concat (map (drawObject d) (enumerate 0 vis)))"
proof -
  from assms have "(i, vis ! i) \<in> set (enumerate 0 vis)"
    by (simp add: in_set_enumerate_eq)
  moreover have "EntityBox (PALETTE ! (i mod 7)) (scaleBox d (box_2d (vis ! i)))
                 \<in> set (drawObject d (i, vis ! i))"
    unfolding drawObject_explicit by simp
  ultimately show ?thesis by auto
qed

text \<open>
  Claim C6, amended. In every frame, when the list of live detections is empty the frame
  holds, for the visible entity at position \<open>i\<close>, its scaled box in the colour
  \<open>PALETTE ! (i mod 7)\<close>, followed by its scaled trajectory when that has more than one
  point, and then every label of the layout with its connector through the channel of
  its side; it holds no live box. When the list is not empty the frame holds nothing of
  the committed entities, and a live box, with the label in upper case, for every entry
  that is not skipped as stale. So when some entity is visible, the frame draws
  committed entities if and only if the list of live detections is empty.
\<close>

theorem committed_entities_drawn_iff_live_list_empty:
  "(let d = imgDims st;
        t = currentTime st;
        vis = visibleObjects data detailLevel isVideo t;
        lay = layout data vis d;
        frame = renderFrame data dets detailLevel isVideo va mr st;
        entityOps = (\<lambda>io. EntityBox (PALETTE ! (fst io mod 7)) (scaleBox d (box_2d (snd io)))
                          # (case tracking (snd io) of
                               None \<Rightarrow> []
                             | Some tr \<Rightarrow>
                                 if 1 < length (trajectory tr)
                                 then [TrajectoryLine (PALETTE ! (fst io mod 7))
                                         (map (\<lambda>p. (snd p * (w d / 1000), fst p * (h d / 1000)))
                                              (trajectory tr))]
                                 else []));
        labelOps = (\<lambda>lbl. LabelOp lbl [(px lbl, py lbl),
                                        (if edge lbl = Left then - 50 else w d + 50, py lbl),
                                        (if edge lbl = Left then - 50 else w d + 50, ty lbl),
                                        (tx lbl, ty lbl)]);
        liveOps = (\<lambda>det. if isVideo \<and> live_timestamp det \<noteq> None
                              \<and> 1.2 < \<bar>t - the (live_timestamp det)\<bar>
                           then []
                           else [LiveBox (toUpperCase (live_label det))
                                         (scaleBox d (live_box_2d det))])
    in (dets = [] \<longrightarrow>
          filter committedOp frame = concat (map entityOps (enumerate 0 vis)) @ map labelOps lay
          \<and> filter liveOp frame = [])
       \<and> (dets \<noteq> [] \<longrightarrow>
            filter committedOp frame = []
            \<and> filter liveOp frame = concat (map liveOps dets))
       \<and> (vis \<noteq> [] \<longrightarrow> ((\<exists>op \<in> set frame. committedOp op) \<longleftrightarrow> dets = []))
       \<and> (dets = [] \<longrightarrow>
            (\<forall>i < length vis.
               EntityBox (PALETTE ! (i mod 7)) (scaleBox d (box_2d (vis ! i))) \<in> set frame))
       \<and> (dets = [] \<longrightarrow> (\<forall>lbl \<in> set lay. labelOps lbl \<in> set frame)))"
proof -
  define d where "d = imgDims st"
  define t where "t = currentTime st"
  define vis where "vis = visibleObjects data detailLevel isVideo t"
  define lay where "lay = layout data vis d"
  define frame where "frame = renderFrame data dets detailLevel isVideo va mr st"
  have fr: "frame = render isVideo va mr d t data dets vis lay"
    by (simp add: frame_def renderFrame_def vis_def lay_def d_def t_def Let_def)
  have none: "vis = [] \<and> lay = []" if "data = None"
    using that by (simp add: vis_def lay_def visibleObjects_def layout_def)
  have c: "filter committedOp frame
           = (if dets = [] then concat (map (drawObject d) (enumerate 0 vis)) @ map (drawLabel d) lay
              else [])"
  proof (cases data)
    case None
    with none show ?thesis unfolding fr render_committed_ops by simp
  next
    case (Some a)
    then show ?thesis unfolding fr render_committed_ops by simp
  qed
  have l: "filter liveOp frame = concat (map (drawLiveDetection isVideo t d) dets)"
    unfolding fr by (rule render_live_ops)
  have ex: "(\<exists>op \<in> set frame. committedOp op) \<longleftrightarrow> dets = []" if "vis \<noteq> []"
  proof -
    from that obtain v vs where "vis = v # vs" by (cases vis) auto
    then have "concat (map (drawObject d) (enumerate 0 vis)) \<noteq> []"
      by (simp add: drawObject_nonempty)
    then have "filter committedOp frame \<noteq> [] \<longleftrightarrow> dets = []"
      unfolding c by simp
    then show ?thesis by (simp add: filter_empty_conv)
  qed
  have sub: "set (filter committedOp frame) \<subseteq> set frame" by auto
  have boxes: "EntityBox (PALETTE ! (i mod 7)) (scaleBox d (box_2d (vis ! i))) \<in> set frame"
    if "dets = []" "i < length vis" for i
  proof -
    from entity_box_in_ops [OF that(2), of d] that(1)
    have "EntityBox (PALETTE ! (i mod 7)) (scaleBox d (box_2d (vis ! i)))
          \<in> set (filter committedOp frame)"
      unfolding c by simp
    with sub show ?thesis by blast
  qed
  have labels: "drawLabel d lbl \<in> set frame" if "dets = []" "lbl \<in> set lay" for lbl
  proof -
    from that have "drawLabel d lbl \<in> set (filter committedOp frame)"
      unfolding c by simp
    with sub show ?thesis by blast
  qed
  have "(dets = [] \<longrightarrow>
          filter committedOp frame
            = concat (map (drawObject d) (enumerate 0 vis)) @ map (drawLabel d) lay
          \<and> filter liveOp frame = [])
       \<and> (dets \<noteq> [] \<longrightarrow>
            filter committedOp frame = []
            \<and> filter liveOp frame = concat (map (drawLiveDetection isVideo t d) dets))
       \<and> (vis \<noteq> [] \<longrightarrow> ((\<exists>op \<in> set frame. committedOp op) \<longleftrightarrow> dets = []))
       \<and> (dets = [] \<longrightarrow>
            (\<forall>i < length vis.
               EntityBox (PALETTE ! (i mod 7)) (scaleBox d (box_2d (vis ! i))) \<in> set frame))
       \<and> (dets = [] \<longrightarrow> (\<forall>lbl \<in> set lay. drawLabel d lbl \<in> set frame))"
    using c l ex boxes labels by simp
  then show ?thesis
    unfolding Let_def d_def [symmetric] t_def [symmetric] vis_def [symmetric]
      lay_def [symmetric] frame_def [symmetric]
    unfolding drawObject_explicit drawLabel_explicit drawLiveDetection_explicit .
qed

text \<open>One visible entity, without and with a live detection.\<close>

theorem committed_entities_drawn_iff_live_list_empty_witness:
  "visibleObjects (Some \<lparr> objects = [entityAt ''a'' None] \<rparr>) 100 False
     (currentTime initial_state) \<noteq> []
   \<and> (\<exists>op \<in> set (renderFrame (Some \<lparr> objects = [entityAt ''a'' None] \<rparr>) []
                      100 False False True initial_state). committedOp op)
   \<and> \<not> (\<exists>op \<in> set (renderFrame (Some \<lparr> objects = [entityAt ''a'' None] \<rparr>)
                        [detectionAt None] 100 False False True initial_state). committedOp op)
   \<and> EntityBox ''#1e40af'' (100, 100, 200, 200)
       \<in> set (renderFrame (Some \<lparr> objects = [entityAt ''a'' None] \<rparr>) []
                 100 False False True initial_state)"
proof -
  let ?data = "Some \<lparr> objects = [entityAt ''a'' None] \<rparr>"
  let ?vis = "visibleObjects ?data 100 False (currentTime initial_state)"
  have vis: "?vis = [entityAt ''a'' None]" by (simp add: visibleObjects_def)
  then have v: "?vis \<noteq> []" by simp
  have n: "[detectionAt None] \<noteq> []" by simp
  note empty = committed_entities_drawn_iff_live_list_empty
      [where data = ?data and detailLevel = 100 and isVideo = False and st = initial_state
         and dets = "[]" and va = False and mr = True, unfolded Let_def]
  note live = committed_entities_drawn_iff_live_list_empty
      [where data = ?data and detailLevel = 100 and isVideo = False and st = initial_state
         and dets = "[detectionAt None]" and va = False and mr = True, unfolded Let_def]
  from empty [THEN conjunct2, THEN conjunct2, THEN conjunct1] v
  have a: "\<exists>op \<in> set (renderFrame ?data [] 100 False False True initial_state). committedOp op"
    by simp
  from live [THEN conjunct2, THEN conjunct2, THEN conjunct1] v n
  have b: "\<not> (\<exists>op \<in> set (renderFrame ?data [detectionAt None] 100 False False True
                             initial_state). committedOp op)"
    by simp
  have i: "0 < length ?vis" unfolding vis by simp
  from empty [THEN conjunct2, THEN conjunct2, THEN conjunct2, THEN conjunct1] i
  have "EntityBox (PALETTE ! (0 mod 7)) (scaleBox (imgDims initial_state) (box_2d (?vis ! 0)))
        \<in> set (renderFrame ?data [] 100 False False True initial_state)"
    by blast
  moreover have "PALETTE ! (0 mod 7) = ''#1e40af''" by (simp add: PALETTE_def)
  moreover have "scaleBox (imgDims initial_state) (box_2d (?vis ! 0)) = (100, 100, 200, 200)"
    unfolding vis
    by (simp add: initial_state_def entityAt_def scaleX_def scaleY_def Let_def)
  ultimately have c: "EntityBox ''#1e40af'' (100, 100, 200, 200)
        \<in> set (renderFrame ?data [] 100 False False True initial_state)"
    by (simp only:)
  from v a b c show ?thesis by (intro conjI)
qed

text \<open>
  Claim C6 as stated fails when every entry of the list is stale: in a video at 7.0 s
  with one visible entity and one detection captured at 5.0 s, the detection is skipped,
  so no live detection is shown, and the committed entity is not drawn either: the
  frame is the media frame and the grid.
\<close>

theorem stale_detection_hides_committed_entities:
  "visibleObjects (Some \<lparr> objects = [entityAt ''a'' None] \<rparr>) 100 True 7 = [entityAt ''a'' None]
   \<and> drawLiveDetection True 7 \<lparr> w = 1000, h = 1000 \<rparr> (detectionAt (Some 5)) = []
   \<and> renderFrame (Some \<lparr> objects = [entityAt ''a'' None] \<rparr>) [detectionAt (Some 5)] 100
        True True True (timeUpdate initial_state 7)
      = [DrawMedia, DrawGrid]"
proof -
  have v: "visibleObjects (Some \<lparr> objects = [entityAt ''a'' None] \<rparr>) 100 True 7 = [entityAt ''a'' None]"
    by (simp add: visibleObjects_def timestampFilter_def entityAt_def)
  have s: "drawLiveDetection True 7 d (detectionAt (Some 5)) = []" for d
    by (simp add: drawLiveDetection_def detectionAt_def)
  have t: "currentTime (timeUpdate initial_state 7) = 7"
    by (simp add: timeUpdate_def)
  have f: "renderFrame (Some \<lparr> objects = [entityAt ''a'' None] \<rparr>) [detectionAt (Some 5)] 100
             True True True (timeUpdate initial_state 7)
           = [DrawMedia, DrawGrid]"
    unfolding renderFrame_def Let_def render_def t by (simp add: s)
  from v s f show ?thesis by (intro conjI)
qed

subsection \<open>Layout solver: one pass and the boundary constraints\<close>

lemma pushBy_axisSize [simp]: "axisSize v (pushBy v' delta a) = axisSize v a"
  by (simp add: pushBy_def axisSize_def)

lemma pushBy_anchorPos [simp]: "anchorPos v (pushBy v' delta a) = anchorPos v a"
  by (simp add: pushBy_def anchorPos_def)

lemma clampItem_axisSize [simp]: "axisSize v (clampItem v' lo hi a) = axisSize v a"
  by (simp add: clampItem_def axisSize_def Let_def)

lemma clampItem_anchorPos [simp]: "anchorPos v (clampItem v' lo hi a) = anchorPos v a"
  by (simp add: clampItem_def anchorPos_def Let_def)

lemma relaxPass_length [simp]: "length (fst (relaxPass v xs)) = length xs"
  by (induction v xs rule: relaxPass.induct) (simp_all add: Let_def)

lemma relaxPass_axisSize [simp]: "map (axisSize v') (fst (relaxPass v xs)) = map (axisSize v') xs"
  by (induction v xs rule: relaxPass.induct) (simp_all add: Let_def)

lemma relaxPass_anchorPos [simp]: "map (anchorPos v') (fst (relaxPass v xs)) = map (anchorPos v') xs"
  by (induction v xs rule: relaxPass.induct) (simp_all add: Let_def)

lemma relaxPass_no_overlap_iff: "\<not> snd (relaxPass v xs) \<longleftrightarrow> adjSeparated v xs"
  by (induction v xs rule: relaxPass.induct) (auto simp: Let_def)

lemma relaxPass_separated: "adjSeparated v xs \<Longrightarrow> fst (relaxPass v xs) = xs"
  by (induction v xs rule: relaxPass.induct) (auto simp: Let_def)

lemma clampItem_cases: "clampItem v lo hi a = a \<or> flushWithBand v lo hi (clampItem v lo hi a)"
  by (auto simp: clampItem_def flushWithBand_def targetPos_def axisSize_def Let_def)

lemma clampItem_idem: "clampItem v lo hi (clampItem v lo hi a) = clampItem v lo hi a"
  by (auto simp: clampItem_def Let_def)

lemma clampItem_inBand: "inBand v lo hi a \<Longrightarrow> clampItem v lo hi a = a"
  by (auto simp: clampItem_def inBand_def targetPos_def axisSize_def Let_def)

lemma clampItem_upper:
  "targetPos v (clampItem v lo hi a) + axisSize v (clampItem v lo hi a) / 2 \<le> hi"
  by (auto simp: clampItem_def targetPos_def axisSize_def Let_def)

lemma clampItem_lower:
  "axisSize v a \<le> hi - lo \<Longrightarrow>
   lo \<le> targetPos v (clampItem v lo hi a) - axisSize v (clampItem v lo hi a) / 2"
  by (cases v) (auto simp: clampItem_def targetPos_def axisSize_def Let_def)

subsection \<open>Layout solver: the loop\<close>

lemma solveLoop_passes: "passes (solveLoop n v lo hi xs) \<le> n"
  by (induction n arbitrary: xs) (simp_all add: Let_def)

lemma solveLoop_exhausted: "exhausted (solveLoop n v lo hi xs) \<Longrightarrow> passes (solveLoop n v lo hi xs) = n"
  by (induction n arbitrary: xs) (simp_all add: Let_def split: if_splits)

lemma solveLoop_length [simp]: "length (laidOut (solveLoop n v lo hi xs)) = length xs"
  by (induction n arbitrary: xs) (simp_all add: Let_def)

lemma axisSize_clampItem_comp [simp]: "axisSize v' \<circ> clampItem v lo hi = axisSize v'"
  by (rule ext) simp

lemma anchorPos_clampItem_comp [simp]: "anchorPos v' \<circ> clampItem v lo hi = anchorPos v'"
  by (rule ext) simp

lemma solveLoop_axisSize [simp]:
  "map (axisSize v') (laidOut (solveLoop n v lo hi xs)) = map (axisSize v') xs"
  by (induction n arbitrary: xs) (simp_all add: Let_def)

lemma solveLoop_anchorPos [simp]:
  "map (anchorPos v') (laidOut (solveLoop n v lo hi xs)) = map (anchorPos v') xs"
  by (induction n arbitrary: xs) (simp_all add: Let_def)

text \<open>When the loop ends by \<open>break\<close>, its result is the clamped image of a separated list.\<close>

lemma solveLoop_break:
  "\<not> exhausted (solveLoop n v lo hi xs) \<Longrightarrow>
   \<exists>pre. adjSeparated v pre \<and> map (axisSize v) pre = map (axisSize v) xs
         \<and> laidOut (solveLoop n v lo hi xs) = map (clampItem v lo hi) pre"
proof (induction n arbitrary: xs)
  case 0
  then show ?case by simp
next
  case (Suc n)
  show ?case
  proof (cases "snd (relaxPass v xs)")
    case False
    then have sep: "adjSeparated v xs" by (simp add: relaxPass_no_overlap_iff)
    with False have "laidOut (solveLoop (Suc n) v lo hi xs) = map (clampItem v lo hi) xs"
      by (simp add: Let_def relaxPass_separated)
    with sep show ?thesis by blast
  next
    case True
    let ?c = "map (clampItem v lo hi) (fst (relaxPass v xs))"
    from True Suc.prems have "\<not> exhausted (solveLoop n v lo hi ?c)"
      by (simp add: Let_def)
    from Suc.IH [OF this] obtain pre where
      pre: "adjSeparated v pre" "map (axisSize v) pre = map (axisSize v) ?c"
           "laidOut (solveLoop n v lo hi ?c) = map (clampItem v lo hi) pre"
      by blast
    from pre(2) have "map (axisSize v) pre = map (axisSize v) xs" by simp
    moreover from True pre(3)
    have "laidOut (solveLoop (Suc n) v lo hi xs) = map (clampItem v lo hi) pre"
      by (simp add: Let_def)
    ultimately show ?thesis using pre(1) by blast
  qed
qed

text \<open>After at least one pass, the result is a clamped list.\<close>

lemma solveLoop_clamped:
  "0 < n \<Longrightarrow> \<exists>ys. laidOut (solveLoop n v lo hi xs) = map (clampItem v lo hi) ys"
proof (induction n arbitrary: xs)
  case 0
  then show ?case by simp
next
  case (Suc n)
  show ?case
  proof (cases "snd (relaxPass v xs) \<and> 0 < n")
    case True
    with Suc.IH [of "map (clampItem v lo hi) (fst (relaxPass v xs))"]
    show ?thesis by (simp add: Let_def)
  next
    case False
    then show ?thesis by (cases n) (auto simp: Let_def)
  qed
qed

subsection \<open>Layout solver: separation of any two labels\<close>

lemma separated_trans:
  "separated v a b \<Longrightarrow> separated v b c \<Longrightarrow> 0 \<le> axisSize v b \<Longrightarrow> separated v a c"
  unfolding separated_def by argo

lemma adjSeparated_Cons2:
  "adjSeparated v (a # b # rest) \<longleftrightarrow> separated v a b \<and> adjSeparated v (b # rest)"
  by (simp add: separated_def)

lemma adjSeparated_sorted_wrt:
  "adjSeparated v xs \<Longrightarrow> \<forall>a \<in> set xs. 0 \<le> axisSize v a \<Longrightarrow> sorted_wrt (separated v) xs"
proof (induction v xs rule: adjSeparated.induct)
  case (1 v a b rest)
  from "1.prems"(1) have ab: "separated v a b" and adj: "adjSeparated v (b # rest)"
    unfolding adjSeparated_Cons2 by blast+
  from "1.prems"(2) have b: "0 \<le> axisSize v b" and pos: "\<forall>a \<in> set (b # rest). 0 \<le> axisSize v a"
    by simp_all
  from "1.IH" [OF adj pos] have tl: "sorted_wrt (separated v) (b # rest)" .
  then have "\<forall>c \<in> set rest. separated v b c" by simp
  with ab b have "\<forall>c \<in> set (b # rest). separated v a c"
    using separated_trans by auto
  with tl show ?case by (simp del: adjSeparated.simps)
qed simp_all

lemma separated_overlap: "separated v a b \<Longrightarrow> intervalOverlap v a b \<le> - 10"
  unfolding separated_def intervalOverlap_def by argo

lemma adjSeparated_nth:
  assumes "adjSeparated v xs" and "\<forall>a \<in> set xs. 0 \<le> axisSize v a"
    and "i < j" and "j < length xs"
  shows "separated v (xs ! i) (xs ! j)"
  using adjSeparated_sorted_wrt [OF assms(1,2)] assms(3,4)
  by (simp add: sorted_wrt_iff_nth_less)

lemma solve1DLayout_break:
  assumes "\<not> exhausted (solve1DLayout items v lo hi)"
    and "\<forall>a \<in> set items. 0 \<le> axisSize v a"
  shows "\<exists>pre. adjSeparated v pre \<and> (\<forall>a \<in> set pre. 0 \<le> axisSize v a)
              \<and> laidOut (solve1DLayout items v lo hi) = map (clampItem v lo hi) pre"
proof (cases "items = []")
  case True
  have "adjSeparated v []" by simp
  with True show ?thesis by (auto simp: solve1DLayout_def)
next
  case False
  let ?s = "sort_key (anchorPos v) items"
  from False assms(1) have "\<not> exhausted (solveLoop 20 v lo hi ?s)"
    by (simp add: solve1DLayout_def)
  from solveLoop_break [OF this] obtain pre where
    pre: "adjSeparated v pre" "map (axisSize v) pre = map (axisSize v) ?s"
         "laidOut (solveLoop 20 v lo hi ?s) = map (clampItem v lo hi) pre"
    by blast
  have "set (map (axisSize v) pre) = axisSize v ` set items"
    unfolding pre(2) by simp
  then have "axisSize v ` set pre = axisSize v ` set items" by simp
  have "\<forall>a \<in> set pre. 0 \<le> axisSize v a"
  proof
    fix a assume "a \<in> set pre"
    then have "axisSize v a \<in> axisSize v ` set items"
      using \<open>axisSize v ` set pre = axisSize v ` set items\<close> by blast
    then obtain b where "b \<in> set items" "axisSize v a = axisSize v b" by blast
    with assms(2) show "0 \<le> axisSize v a" by simp
  qed
  with pre(1,3) False show ?thesis by (auto simp: solve1DLayout_def)
qed

text \<open>
  Claim C1, amended. For labels of non-negative size the solver ends after at most 20
  passes, and it runs all 20 when the budget is exhausted. When it ends before that, any
  two labels of the solved side either have intervals at least 10 apart (an overlap of
  at most -10) or one of them was put flush against a boundary of the band by the
  boundary constraints.
\<close>

theorem solver_terminates_and_separates:
  assumes "\<forall>a \<in> set items. 0 \<le> axisSize v a"
  shows "passes (solve1DLayout items v lo hi) \<le> 20
         \<and> (exhausted (solve1DLayout items v lo hi) \<longrightarrow> passes (solve1DLayout items v lo hi) = 20)
         \<and> length (laidOut (solve1DLayout items v lo hi)) = length items
         \<and> (\<not> exhausted (solve1DLayout items v lo hi) \<longrightarrow>
              (\<forall>i j. i < j \<and> j < length items \<longrightarrow>
                 intervalOverlap v (laidOut (solve1DLayout items v lo hi) ! i)
                                   (laidOut (solve1DLayout items v lo hi) ! j) \<le> - 10
                 \<or> flushWithBand v lo hi (laidOut (solve1DLayout items v lo hi) ! i)
                 \<or> flushWithBand v lo hi (laidOut (solve1DLayout items v lo hi) ! j)))"
proof (intro conjI impI allI)
  show "passes (solve1DLayout items v lo hi) \<le> 20"
    by (simp add: solve1DLayout_def solveLoop_passes)
  show "passes (solve1DLayout items v lo hi) = 20" if "exhausted (solve1DLayout items v lo hi)"
    using that solveLoop_exhausted by (auto simp: solve1DLayout_def split: if_splits)
  show len: "length (laidOut (solve1DLayout items v lo hi)) = length items"
    by (simp add: solve1DLayout_def)
  fix i j
  assume brk: "\<not> exhausted (solve1DLayout items v lo hi)" and ij: "i < j \<and> j < length items"
  from solve1DLayout_break [OF brk assms] obtain pre where
    pre: "adjSeparated v pre" "\<forall>a \<in> set pre. 0 \<le> axisSize v a"
         "laidOut (solve1DLayout items v lo hi) = map (clampItem v lo hi) pre"
    by blast
  from pre(3) len have lp: "length pre = length items" by (metis length_map)
  with ij have i: "i < length pre" and j: "j < length pre" by simp_all
  from ij lp have sep: "separated v (pre ! i) (pre ! j)"
    using adjSeparated_nth [OF pre(1,2), of i j] by simp
  let ?r = "laidOut (solve1DLayout items v lo hi)"
  have ri: "?r ! i = clampItem v lo hi (pre ! i)" and rj: "?r ! j = clampItem v lo hi (pre ! j)"
    using i j by (simp_all add: pre(3))
  show "intervalOverlap v (?r ! i) (?r ! j) \<le> - 10
        \<or> flushWithBand v lo hi (?r ! i) \<or> flushWithBand v lo hi (?r ! j)"
  proof (cases "clampItem v lo hi (pre ! i) = pre ! i \<and> clampItem v lo hi (pre ! j) = pre ! j")
    case True
    with sep ri rj have "separated v (?r ! i) (?r ! j)" by simp
    then show ?thesis using separated_overlap by blast
  next
    case False
    then show ?thesis
      unfolding ri rj using clampItem_cases [of v lo hi "pre ! i"] clampItem_cases [of v lo hi "pre ! j"]
      by blast
  qed
qed

lemma solveLoop_separated:
  assumes "adjSeparated v xs" and "map (clampItem v lo hi) xs = xs"
  shows "solveLoop (Suc n) v lo hi xs = \<lparr> laidOut = xs, passes = 1, exhausted = False \<rparr>"
proof -
  from assms(1) have "\<not> snd (relaxPass v xs)" by (simp add: relaxPass_no_overlap_iff)
  then show ?thesis
    using relaxPass_separated [OF assms(1)] assms(2) by (simp add: Let_def)
qed

lemma solve1DLayout_sorted:
  "sorted (map (anchorPos v) (laidOut (solve1DLayout items v lo hi)))"
  by (simp add: solve1DLayout_def sorted_sort_key)

lemma solve1DLayout_clamped:
  "map (clampItem v lo hi) (laidOut (solve1DLayout items v lo hi))
   = laidOut (solve1DLayout items v lo hi)"
proof (cases "items = []")
  case True
  then show ?thesis by (simp add: solve1DLayout_def)
next
  case False
  have "(0::nat) < 20" by simp
  from solveLoop_clamped [OF this] obtain ys where
    "laidOut (solveLoop 20 v lo hi (sort_key (anchorPos v) items)) = map (clampItem v lo hi) ys"
    by blast
  with False have "laidOut (solve1DLayout items v lo hi) = map (clampItem v lo hi) ys"
    by (simp add: solve1DLayout_def)
  then show ?thesis by (simp add: clampItem_idem)
qed

subsection \<open>Layout solver: running it again\<close>

text \<open>
  Claim C4, amended. When no two neighbours of the result of a run are closer than the
  minimum separation, a second run on that result ends by \<open>break\<close> and leaves every
  label, so every target position, as it is.
\<close>

theorem separated_layout_is_fixed_point:
  assumes "adjSeparated v (laidOut (solve1DLayout items v lo hi))"
  shows "laidOut (solve1DLayout (laidOut (solve1DLayout items v lo hi)) v lo hi)
         = laidOut (solve1DLayout items v lo hi)
         \<and> \<not> exhausted (solve1DLayout (laidOut (solve1DLayout items v lo hi)) v lo hi)
         \<and> map (targetPos v) (laidOut (solve1DLayout (laidOut (solve1DLayout items v lo hi)) v lo hi))
           = map (targetPos v) (laidOut (solve1DLayout items v lo hi))"
proof -
  define r where "r = laidOut (solve1DLayout items v lo hi)"
  have srt: "sort_key (anchorPos v) r = r"
    unfolding r_def by (rule sort_key_id_if_sorted) (rule solve1DLayout_sorted)
  have cl: "map (clampItem v lo hi) r = r"
    unfolding r_def by (rule solve1DLayout_clamped)
  from assms have sep: "adjSeparated v r" by (simp add: r_def)
  have "20 = Suc 19" by simp
  then have "solveLoop 20 v lo hi r = \<lparr> laidOut = r, passes = 1, exhausted = False \<rparr>"
    using solveLoop_separated [OF sep cl, of 19] by simp
  then have "laidOut (solve1DLayout r v lo hi) = r \<and> \<not> exhausted (solve1DLayout r v lo hi)"
    by (simp add: solve1DLayout_def srt)
  then show ?thesis unfolding r_def by simp
qed

subsection \<open>Layout solver: runs on two labels\<close>

lemma relaxPass_two_labels:
  "relaxPass True [labelAt r1 p1 a, labelAt r2 p2 b]
   = (if b - a < 55
      then ([labelAt r1 p1 (a - (55 - (b - a)) / 2), labelAt r2 p2 (b + (55 - (b - a)) / 2)], True)
      else ([labelAt r1 p1 a, labelAt r2 p2 b], False))"
  by (simp add: labelAt_def targetPos_def axisSize_def pushBy_def Let_def)

lemma clampItem_labelAt:
  "clampItem True lo hi (labelAt r p t)
   = labelAt r p (if (if t - 45 / 2 < lo then lo + 45 / 2 else t) + 45 / 2 > hi
                  then hi - 45 / 2
                  else (if t - 45 / 2 < lo then lo + 45 / 2 else t))"
  by (simp add: labelAt_def clampItem_def Let_def)

lemma sort_two_labels:
  "p1 \<le> p2 \<Longrightarrow> sort_key (anchorPos True) [labelAt r1 p1 a, labelAt r2 p2 b]
     = [labelAt r1 p1 a, labelAt r2 p2 b]"
  by (simp add: labelAt_def anchorPos_def)

lemma solveLoop_two_labels:
  "solveLoop (Suc n) True lo hi [labelAt r1 p1 a, labelAt r2 p2 b]
   = (if b - a < 55
      then (let r = solveLoop n True lo hi
                      [clampItem True lo hi (labelAt r1 p1 (a - (55 - (b - a)) / 2)),
                       clampItem True lo hi (labelAt r2 p2 (b + (55 - (b - a)) / 2))]
            in r\<lparr> passes := Suc (passes r) \<rparr>)
      else \<lparr> laidOut = [clampItem True lo hi (labelAt r1 p1 a),
                         clampItem True lo hi (labelAt r2 p2 b)],
             passes = 1, exhausted = False \<rparr>)"
  unfolding solveLoop.simps relaxPass_two_labels by (simp add: Let_def)

lemma first_run_clamps_onto_boundary:
  "solve1DLayout [labelAt 0 100 1560, labelAt 1 200 1640] True (- 500) 1500
   = \<lparr> laidOut = [labelAt 0 100 (2955 / 2), labelAt 1 200 (2955 / 2)],
       passes = 1, exhausted = False \<rparr>"
proof -
  have s: "sort_key (anchorPos True) [labelAt 0 100 1560, labelAt 1 200 1640]
           = [labelAt 0 100 1560, labelAt 1 200 1640]"
    by (rule sort_two_labels) simp
  have n: "(20::nat) = Suc 19" by simp
  show ?thesis
    unfolding solve1DLayout_def s n solveLoop_two_labels clampItem_labelAt by simp
qed

lemma first_run_without_clamping:
  "solve1DLayout [labelAt 0 100 100, labelAt 1 200 120] True (- 500) 1500
   = \<lparr> laidOut = [labelAt 0 100 (165 / 2), labelAt 1 200 (275 / 2)],
       passes = 2, exhausted = False \<rparr>"
proof -
  have s: "sort_key (anchorPos True) [labelAt 0 100 100, labelAt 1 200 120]
           = [labelAt 0 100 100, labelAt 1 200 120]"
    by (rule sort_two_labels) simp
  have n: "(20::nat) = Suc (Suc 18)" by simp
  have c1: "clampItem True (- 500) 1500 (labelAt 0 100 (100 - (55 - (120 - 100)) / 2))
            = labelAt 0 100 (165 / 2)"
    unfolding clampItem_labelAt by simp
  have c2: "clampItem True (- 500) 1500 (labelAt 1 200 (120 + (55 - (120 - 100)) / 2))
            = labelAt 1 200 (275 / 2)"
    unfolding clampItem_labelAt by simp
  have c3: "clampItem True (- 500) 1500 (labelAt 0 100 (165 / 2)) = labelAt 0 100 (165 / 2)"
    unfolding clampItem_labelAt by simp
  have c4: "clampItem True (- 500) 1500 (labelAt 1 200 (275 / 2)) = labelAt 1 200 (275 / 2)"
    unfolding clampItem_labelAt by simp
  have p1: "(120::real) - 100 < 55" by simp
  have p2: "\<not> (275 / 2 :: real) - 165 / 2 < 55" by simp
  show ?thesis
    unfolding solve1DLayout_def s n
    by (simp only: solveLoop_two_labels [of _ _ _ _ _ 100] p1 if_True c1 c2 Let_def
        solveLoop_two_labels [of _ _ _ _ _ "165 / 2"] p2 if_False c3 c4)
       simp
qed

text \<open>
  Label 0 below label 1, which sits flush at the upper boundary: every pass halves what
  is missing to the minimum separation, and label 1 is clamped back.
\<close>

lemma solveLoop_against_boundary:
  assumes "2845 / 2 < a" and "a \<le> 2955 / 2"
  shows "solveLoop n True (- 500) 1500 [labelAt 0 100 a, labelAt 1 200 (2955 / 2)]
         = \<lparr> laidOut = [labelAt 0 100 (2845 / 2 + (a - 2845 / 2) / 2 ^ n),
                         labelAt 1 200 (2955 / 2)],
             passes = n, exhausted = True \<rparr>"
  using assms
proof (induction n arbitrary: a)
  case 0
  show ?case by simp
next
  case (Suc n)
  let ?a' = "(a + 2845 / 2) / 2"
  have ov: "2955 / 2 - a < 55" using Suc.prems by simp
  have c1: "clampItem True (- 500) 1500 (labelAt 0 100 (a - (55 - (2955 / 2 - a)) / 2))
            = labelAt 0 100 ?a'"
    unfolding clampItem_labelAt using Suc.prems by (simp add: field_simps)
  have c2: "clampItem True (- 500) 1500 (labelAt 1 200 (2955 / 2 + (55 - (2955 / 2 - a)) / 2))
            = labelAt 1 200 (2955 / 2)"
    unfolding clampItem_labelAt using Suc.prems by (simp add: field_simps)
  have a': "2845 / 2 < ?a'" "?a' \<le> 2955 / 2" using Suc.prems by simp_all
  have v: "2845 / 2 + (?a' - 2845 / 2) / 2 ^ n = 2845 / 2 + (a - 2845 / 2) / 2 ^ Suc n"
    by (simp add: field_simps)
  have step: "solveLoop (Suc n) True (- 500) 1500 [labelAt 0 100 a, labelAt 1 200 (2955 / 2)]
              = (let r = solveLoop n True (- 500) 1500 [labelAt 0 100 ?a', labelAt 1 200 (2955 / 2)]
                 in r\<lparr> passes := Suc (passes r) \<rparr>)"
    unfolding solveLoop_two_labels c1 c2 using ov by (simp only: if_True)
  show ?case
    unfolding step Let_def Suc.IH [OF a'] v by simp
qed

lemma second_run_exhausts_budget:
  "solve1DLayout [labelAt 0 100 (2955 / 2), labelAt 1 200 (2955 / 2)] True (- 500) 1500
   = \<lparr> laidOut = [labelAt 0 100 (2845 / 2 + 55 / 2 ^ 20), labelAt 1 200 (2955 / 2)],
       passes = 20, exhausted = True \<rparr>"
proof -
  have s: "sort_key (anchorPos True) [labelAt 0 100 (2955 / 2), labelAt 1 200 (2955 / 2)]
           = [labelAt 0 100 (2955 / 2), labelAt 1 200 (2955 / 2)]"
    by (rule sort_two_labels) simp
  have a: "(2845 / 2 :: real) < 2955 / 2" "(2955 / 2 :: real) \<le> 2955 / 2" by simp_all
  have v: "(2955 / 2 - 2845 / 2 :: real) = 55" by simp
  show ?thesis
    unfolding solve1DLayout_def s solveLoop_against_boundary [OF a] v by simp
qed

text \<open>
  Two labels whose targets start 20 apart: the run ends after two passes with the
  targets 55 apart.
\<close>

theorem solver_terminates_and_separates_witness:
  "0 \<le> axisSize True (labelAt 0 100 100) \<and> 0 \<le> axisSize True (labelAt 1 200 120)
   \<and> \<not> exhausted (solve1DLayout [labelAt 0 100 100, labelAt 1 200 120] True (- 500) 1500)
   \<and> passes (solve1DLayout [labelAt 0 100 100, labelAt 1 200 120] True (- 500) 1500) \<le> 20
   \<and> \<not> flushWithBand True (- 500) 1500 (labelAt 0 100 (165 / 2))
   \<and> \<not> flushWithBand True (- 500) 1500 (labelAt 1 200 (275 / 2))
   \<and> intervalOverlap True (labelAt 0 100 (165 / 2)) (labelAt 1 200 (275 / 2)) \<le> - 10"
proof -
  let ?ex = "[labelAt 0 100 100, labelAt 1 200 120]"
  have s0: "0 \<le> axisSize True (labelAt 0 100 100)" and s1: "0 \<le> axisSize True (labelAt 1 200 120)"
    by (simp_all add: labelAt_def axisSize_def)
  then have sz: "\<forall>a \<in> set ?ex. 0 \<le> axisSize True a" by simp
  have ne: "\<not> exhausted (solve1DLayout ?ex True (- 500) 1500)"
    unfolding first_run_without_clamping by simp
  have ij: "(0::nat) < 1 \<and> 1 < length ?ex" by simp
  have f0: "\<not> flushWithBand True (- 500) 1500 (labelAt 0 100 (165 / 2))"
    by (simp add: flushWithBand_def labelAt_def targetPos_def axisSize_def)
  have f1: "\<not> flushWithBand True (- 500) 1500 (labelAt 1 200 (275 / 2))"
    by (simp add: flushWithBand_def labelAt_def targetPos_def axisSize_def)
  note inst = solver_terminates_and_separates [OF sz, of "- 500" 1500]
  from inst have p: "passes (solve1DLayout ?ex True (- 500) 1500) \<le> 20" by blast
  from inst ne ij have
    "intervalOverlap True (laidOut (solve1DLayout ?ex True (- 500) 1500) ! 0)
                          (laidOut (solve1DLayout ?ex True (- 500) 1500) ! 1) \<le> - 10
     \<or> flushWithBand True (- 500) 1500 (laidOut (solve1DLayout ?ex True (- 500) 1500) ! 0)
     \<or> flushWithBand True (- 500) 1500 (laidOut (solve1DLayout ?ex True (- 500) 1500) ! 1)"
    by blast
  then have "intervalOverlap True (labelAt 0 100 (165 / 2)) (labelAt 1 200 (275 / 2)) \<le> - 10
      \<or> flushWithBand True (- 500) 1500 (labelAt 0 100 (165 / 2))
      \<or> flushWithBand True (- 500) 1500 (labelAt 1 200 (275 / 2))"
    unfolding first_run_without_clamping by simp
  with f0 f1 have o: "intervalOverlap True (labelAt 0 100 (165 / 2)) (labelAt 1 200 (275 / 2)) \<le> - 10"
    by blast
  from s0 s1 ne p f0 f1 o show ?thesis by (intro conjI)
qed

text \<open>
  Claim C1 as stated fails: two labels of height 45 whose targets start at 1560 and 1640,
  beyond the upper boundary 1500, are 80 apart, so the first pass finds no overlap; the
  boundary constraints then put both at 1477.5 and the loop ends after one pass, the
  two intervals being the same interval of length 45.
\<close>

theorem clamped_labels_overlap_without_exhaustion:
  "\<not> exhausted (solve1DLayout [labelAt 0 100 1560, labelAt 1 200 1640] True (- 500) 1500)
   \<and> passes (solve1DLayout [labelAt 0 100 1560, labelAt 1 200 1640] True (- 500) 1500) = 1
   \<and> laidOut (solve1DLayout [labelAt 0 100 1560, labelAt 1 200 1640] True (- 500) 1500)
       = [labelAt 0 100 (2955 / 2), labelAt 1 200 (2955 / 2)]
   \<and> intervalOverlap True (labelAt 0 100 (2955 / 2)) (labelAt 1 200 (2955 / 2)) = 45"
  unfolding first_run_clamps_onto_boundary
  by (simp add: intervalOverlap_def labelAt_def targetPos_def axisSize_def)

text \<open>The result of the two-pass run above is left unchanged by a second run.\<close>

theorem separated_layout_is_fixed_point_witness:
  "adjSeparated True
     (laidOut (solve1DLayout [labelAt 0 100 100, labelAt 1 200 120] True (- 500) 1500))
   \<and> laidOut (solve1DLayout [labelAt 0 100 (165 / 2), labelAt 1 200 (275 / 2)] True (- 500) 1500)
       = [labelAt 0 100 (165 / 2), labelAt 1 200 (275 / 2)]"
proof -
  let ?ex = "[labelAt 0 100 100, labelAt 1 200 120]"
  have r: "laidOut (solve1DLayout ?ex True (- 500) 1500)
           = [labelAt 0 100 (165 / 2), labelAt 1 200 (275 / 2)]"
    unfolding first_run_without_clamping by simp
  have sep: "adjSeparated True (laidOut (solve1DLayout ?ex True (- 500) 1500))"
    unfolding r by (simp add: labelAt_def targetPos_def axisSize_def)
  from separated_layout_is_fixed_point [OF sep]
  have "laidOut (solve1DLayout (laidOut (solve1DLayout ?ex True (- 500) 1500)) True (- 500) 1500)
        = laidOut (solve1DLayout ?ex True (- 500) 1500)"
    by blast
  then have "laidOut (solve1DLayout [labelAt 0 100 (165 / 2), labelAt 1 200 (275 / 2)] True (- 500) 1500)
             = [labelAt 0 100 (165 / 2), labelAt 1 200 (275 / 2)]"
    unfolding r .
  with sep show ?thesis by (intro conjI)
qed

text \<open>
  Claim C4 as stated fails: the run that ended after one pass with both targets at
  1477.5 converged within the budget, yet a second run on its result uses all 20
  passes and moves the first label to \<open>1422.5 + 55 / 2 ^ 20\<close>.
\<close>

theorem second_run_moves_converged_labels:
  "\<not> exhausted (solve1DLayout [labelAt 0 100 1560, labelAt 1 200 1640] True (- 500) 1500)
   \<and> map ty (laidOut (solve1DLayout [labelAt 0 100 1560, labelAt 1 200 1640] True (- 500) 1500))
       = [2955 / 2, 2955 / 2]
   \<and> map ty (laidOut (solve1DLayout
                (laidOut (solve1DLayout [labelAt 0 100 1560, labelAt 1 200 1640] True (- 500) 1500))
                True (- 500) 1500))
       = [2845 / 2 + 55 / 2 ^ 20, 2955 / 2]
   \<and> (2845 / 2 + 55 / 2 ^ 20 :: real) < 2955 / 2"
  unfolding first_run_clamps_onto_boundary solve_result.select_convs second_run_exhausts_budget
  by (simp add: labelAt_def)

subsection \<open>Layout: the labels before the solver\<close>

lemma scaled_normalized:
  assumes "normalized c" and "0 \<le> s"
  shows "0 \<le> c * (s / 1000) \<and> c * (s / 1000) \<le> s"
proof -
  from assms have c: "0 \<le> c" "c \<le> 1000" by (simp_all add: normalized_def)
  from c(1) assms(2) have lo: "0 \<le> c * (s / 1000)" by simp
  from c(2) assms(2) have "c * (s / 1000) \<le> 1000 * (s / 1000)"
    by (intro mult_right_mono) simp_all
  then have "c * (s / 1000) \<le> s" by simp
  with lo show ?thesis by simp
qed

lemma headerTextLines_length: "length (headerTextLines obj) \<le> 2"
  by (simp add: headerTextLines_def)

lemma headerLabel_placed:
  assumes "0 \<le> w d" and "0 \<le> h d" and "boxNormalized (box_2d obj)"
  shows "placed d (headerLabel d r idx obj)"
proof -
  obtain b0 b1 b2 b3 where b: "box_2d obj = (b0, b1, b2, b3)" by (cases "box_2d obj") auto
  from assms(3) have n: "normalized b0" "normalized b1" "normalized b2" "normalized b3"
    by (simp_all add: b)
  note y0 = scaled_normalized [OF n(1) assms(2)]
  note x0 = scaled_normalized [OF n(2) assms(1)]
  note y1 = scaled_normalized [OF n(3) assms(2)]
  note x1 = scaled_normalized [OF n(4) assms(1)]
  have len: "real (length (headerTextLines obj)) \<le> 2"
    using headerTextLines_length [of obj] by simp
  have hh: "0 \<le> real (length (headerTextLines obj)) * 20 + 20"
           "real (length (headerTextLines obj)) * 20 + 20 \<le> 60"
    using len by simp_all
  show ?thesis
    using y0 x0 y1 x1 hh assms(1)
    by (simp add: placed_def headerLabel_def b scaleX_def scaleY_def Let_def anchorInMedia_def
        inSideMargin_def FONT_HEIGHT_HEADER_def LABEL_PADDING_def)
qed

lemma detailLabel_placed:
  assumes "0 \<le> w d" and "0 \<le> h d" and "placed d hdr" and "detailNormalized det"
  shows "placed d (detailLabel d hdr obj dIdx det)"
proof -
  from assms(4) have n: "normalized (fst (location_point det))" "normalized (snd (location_point det))"
    by (simp_all add: detailNormalized_def)
  note y = scaled_normalized [OF n(1) assms(2)]
  note x = scaled_normalized [OF n(2) assms(1)]
  from assms(3) have m: "inSideMargin d hdr" by (simp add: placed_def)
  show ?thesis
    using x y m
    by (auto simp: placed_def detailLabel_def scaleX_def scaleY_def Let_def anchorInMedia_def
        inSideMargin_def)
qed

lemma objectLabels_placed:
  assumes "0 \<le> w d" and "0 \<le> h d" and "boxNormalized (box_2d obj)"
    and "\<forall>det \<in> set (details obj). detailNormalized det"
    and "l \<in> set (objectLabels d r idx obj)"
  shows "placed d l"
proof -
  let ?hdr = "headerLabel d r idx obj"
  have hp: "placed d ?hdr" by (rule headerLabel_placed [OF assms(1,2,3)])
  from assms(5) consider "l = ?hdr"
    | dIdx det where "(dIdx, det) \<in> set (enumerate 0 (details obj))"
        "l = detailLabel d ?hdr obj dIdx det"
    by (auto simp: objectLabels_def Let_def)
  then show ?thesis
  proof cases
    case 1
    with hp show ?thesis by simp
  next
    case 2
    from 2(1) have "det \<in> set (details obj)" by (auto simp: in_set_enumerate_eq)
    with assms(4) have "detailNormalized det" by blast
    from detailLabel_placed [OF assms(1,2) hp this] 2(2) show ?thesis by simp
  qed
qed

lemma pushLabels_placed:
  assumes "0 \<le> w d" and "0 \<le> h d"
  shows "\<forall>l \<in> set labels. placed d l \<Longrightarrow>
         \<forall>obj \<in> set objs. boxNormalized (box_2d obj) \<and> (\<forall>det \<in> set (details obj). detailNormalized det) \<Longrightarrow>
         \<forall>l \<in> set (pushLabels d idx labels objs). placed d l"
proof (induction objs arbitrary: idx labels)
  case Nil
  then show ?case by simp
next
  case (Cons obj objs)
  from Cons.prems(2) have o: "boxNormalized (box_2d obj)" "\<forall>det \<in> set (details obj). detailNormalized det"
    by simp_all
  have a: "\<forall>l \<in> set (labels @ objectLabels d (length labels) idx obj). placed d l"
    using Cons.prems(1) objectLabels_placed [OF assms o] by auto
  from Cons.prems(2) have b:
    "\<forall>obj \<in> set objs. boxNormalized (box_2d obj) \<and> (\<forall>det \<in> set (details obj). detailNormalized det)"
    by simp
  from Cons.IH [OF a b] show ?case by simp
qed

subsection \<open>Layout: what the solver keeps\<close>

lemma fixedPart_pushBy [simp]: "fixedPart (pushBy True delta a) = fixedPart a"
  by (simp add: fixedPart_def pushBy_def)

lemma fixedPart_clampItem [simp]: "fixedPart (clampItem True lo hi a) = fixedPart a"
  by (simp add: fixedPart_def clampItem_def Let_def)

lemma fixedPart_clampItem_comp [simp]: "fixedPart \<circ> clampItem True lo hi = fixedPart"
  by (rule ext) simp

lemma relaxPass_fixedPart [simp]: "map fixedPart (fst (relaxPass True xs)) = map fixedPart xs"
proof (induction "True" xs rule: relaxPass.induct)
  case (1 a b rest)
  then show ?case by (simp add: Let_def)
qed simp_all

lemma solveLoop_fixedPart [simp]:
  "map fixedPart (laidOut (solveLoop n True lo hi xs)) = map fixedPart xs"
  by (induction n arbitrary: xs) (simp_all add: Let_def)

lemma solve1DLayout_fixedPart:
  "fixedPart ` set (laidOut (solve1DLayout items True lo hi)) = fixedPart ` set items"
proof (cases "items = []")
  case True
  then show ?thesis by (simp add: solve1DLayout_def)
next
  case False
  have "fixedPart ` set (laidOut (solveLoop 20 True lo hi (sort_key (anchorPos True) items)))
        = set (map fixedPart (laidOut (solveLoop 20 True lo hi (sort_key (anchorPos True) items))))"
    by (simp only: set_map)
  also have "\<dots> = set (map fixedPart (sort_key (anchorPos True) items))"
    by (simp only: solveLoop_fixedPart)
  also have "\<dots> = fixedPart ` set items" by simp
  finally show ?thesis using False by (simp add: solve1DLayout_def)
qed

lemma fixedPart_fields:
  assumes "fixedPart a = fixedPart b"
  shows "ref a = ref b \<and> px a = px b \<and> py a = py b \<and> tx a = tx b
         \<and> height a = height b \<and> edge a = edge b"
proof -
  have "ref (fixedPart a) = ref (fixedPart b)" "px (fixedPart a) = px (fixedPart b)"
    "py (fixedPart a) = py (fixedPart b)" "tx (fixedPart a) = tx (fixedPart b)"
    "height (fixedPart a) = height (fixedPart b)" "edge (fixedPart a) = edge (fixedPart b)"
    using assms by simp_all
  then show ?thesis by (simp add: fixedPart_def)
qed

lemma fixedPart_placed: "fixedPart a = fixedPart b \<Longrightarrow> placed d b \<Longrightarrow> placed d a"
  using fixedPart_fields [of a b] by (simp add: placed_def anchorInMedia_def inSideMargin_def)

subsection \<open>Layout: reading the solved labels back\<close>

lemma map_fixed_point: "map f xs = xs \<Longrightarrow> x \<in> set xs \<Longrightarrow> f x = x"
  by (induction xs) auto

lemma solved_inBand:
  assumes "m \<in> set (laidOut (solve1DLayout items True lo hi))" and "height m \<le> hi - lo"
  shows "inBand True lo hi m"
proof -
  have c: "clampItem True lo hi m = m"
    by (rule map_fixed_point [OF solve1DLayout_clamped assms(1)])
  from assms(2) have "axisSize True m \<le> hi - lo" by (simp add: axisSize_def)
  from clampItem_lower [OF this] clampItem_upper [of True lo hi m]
  show ?thesis unfolding c by (simp add: inBand_def)
qed

lemma writeBack_cases:
  "(writeBack solved l \<in> set solved \<and> ref (writeBack solved l) = ref l)
   \<or> (writeBack solved l = l \<and> ref l \<notin> ref ` set solved)"
  by (induction solved) (auto simp: writeBack_def)

lemma solved_placed:
  assumes "\<forall>l \<in> set items. placed d l"
    and "m \<in> set (laidOut (solve1DLayout items True lo hi))"
  shows "placed d m"
proof -
  from assms(2) have "fixedPart m \<in> fixedPart ` set items"
    using solve1DLayout_fixedPart [of items lo hi] by blast
  then obtain l where "l \<in> set items" "fixedPart m = fixedPart l" by blast
  with assms(1) show ?thesis using fixedPart_placed by blast
qed

lemma solved_has_ref:
  assumes "l \<in> set items"
  shows "ref l \<in> ref ` set (laidOut (solve1DLayout items True lo hi))"
proof -
  from assms have "fixedPart l \<in> fixedPart ` set (laidOut (solve1DLayout items True lo hi))"
    unfolding solve1DLayout_fixedPart by blast
  then obtain m where m: "m \<in> set (laidOut (solve1DLayout items True lo hi))"
      "fixedPart l = fixedPart m"
    by blast
  from fixedPart_fields [OF m(2)] have "ref l = ref m" by simp
  with m(1) show ?thesis by blast
qed

lemma placed_edge: "placed d l \<Longrightarrow> edge l = Left \<or> edge l = Right"
  by (auto simp: placed_def inSideMargin_def)

subsection \<open>Layout: every pushed label comes back once\<close>

lemma upt_Suc_front: "[a..<a + Suc m] = a # [Suc a..<Suc a + m]"
  by (subst upt_conv_Cons) simp_all

lemma detail_refs:
  "map (\<lambda>p. Suc (r + fst p)) (enumerate n xs) = [Suc (r + n)..<Suc (r + n) + length xs]"
proof (induction xs arbitrary: n)
  case Nil
  show ?case by simp
next
  case (Cons x xs)
  have "map (\<lambda>p. Suc (r + fst p)) (enumerate n (x # xs))
        = Suc (r + n) # map (\<lambda>p. Suc (r + fst p)) (enumerate (Suc n) xs)"
    by simp
  also have "\<dots> = Suc (r + n) # [Suc (r + Suc n)..<Suc (r + Suc n) + length xs]"
    by (simp only: Cons.IH)
  also have "\<dots> = Suc (r + n) # [Suc (Suc (r + n))..<Suc (Suc (r + n)) + length xs]"
    by simp
  also have "\<dots> = [Suc (r + n)..<Suc (r + n) + Suc (length xs)]"
    by (rule upt_Suc_front [symmetric])
  finally show ?case by simp
qed

lemma headerLabel_ref: "ref (headerLabel d r idx obj) = r"
proof -
  obtain b0 b1 b2 b3 where b: "box_2d obj = (b0, b1, b2, b3)" by (cases "box_2d obj") auto
  show ?thesis by (simp add: headerLabel_def b Let_def)
qed

lemma detailLabel_ref: "ref (detailLabel d hdr obj dIdx det) = Suc (ref hdr + dIdx)"
  by (simp add: detailLabel_def Let_def)

lemma objectLabels_length: "length (objectLabels d r idx obj) = Suc (length (details obj))"
  by (simp add: objectLabels_def Let_def)

lemma objectLabels_ref:
  "map ref (objectLabels d r idx obj) = [r..<r + length (objectLabels d r idx obj)]"
proof -
  let ?hdr = "headerLabel d r idx obj"
  let ?f = "\<lambda>(dIdx, det). detailLabel d ?hdr obj dIdx det"
  have "map (\<lambda>p. ref (?f p)) (enumerate 0 (details obj))
        = map (\<lambda>p. Suc (r + fst p)) (enumerate 0 (details obj))"
    by (rule map_cong [OF refl]) (simp add: split_def detailLabel_ref headerLabel_ref)
  also have "\<dots> = [Suc (r + 0)..<Suc (r + 0) + length (details obj)]" by (rule detail_refs)
  finally have dets: "map (\<lambda>p. ref (?f p)) (enumerate 0 (details obj))
                      = [Suc r..<Suc r + length (details obj)]"
    by simp
  have "map ref (objectLabels d r idx obj) = r # map (\<lambda>p. ref (?f p)) (enumerate 0 (details obj))"
    by (simp add: objectLabels_def Let_def headerLabel_ref comp_def)
  also have "\<dots> = r # [Suc r..<Suc r + length (details obj)]" by (simp only: dets)
  also have "\<dots> = [r..<r + Suc (length (details obj))]" by (rule upt_Suc_front [symmetric])
  finally show ?thesis by (simp only: objectLabels_length)
qed

lemma pushLabels_ref:
  "map ref labels = [0..<length labels] \<Longrightarrow>
   map ref (pushLabels d idx labels objs) = [0..<length (pushLabels d idx labels objs)]"
proof (induction objs arbitrary: idx labels)
  case Nil
  then show ?case by simp
next
  case (Cons obj objs)
  let ?new = "objectLabels d (length labels) idx obj"
  have "map ref (labels @ ?new) = map ref labels @ map ref ?new" by simp
  also have "\<dots> = [0..<length labels] @ [length labels..<length labels + length ?new]"
    by (simp only: Cons.prems objectLabels_ref [of d "length labels" idx obj])
  also have "\<dots> = [0..<length labels + length ?new]"
    by (rule upt_add_eq_append [symmetric]) simp
  finally have "map ref (labels @ ?new) = [0..<length (labels @ ?new)]" by simp
  from Cons.IH [OF this] show ?case by simp
qed

lemma pushLabels_distinct_ref: "distinct (map ref (pushLabels d 0 [] visible))"
proof -
  have "map ref (pushLabels d 0 [] visible) = [0..<length (pushLabels d 0 [] visible)]"
    by (rule pushLabels_ref) simp
  then show ?thesis by (simp only: distinct_upt)
qed

lemma fixedPart_label_id: "fixedPart a = fixedPart b \<Longrightarrow> label_id a = label_id b"
proof -
  assume "fixedPart a = fixedPart b"
  then have "label_id (fixedPart a) = label_id (fixedPart b)" by simp
  then show ?thesis by (simp add: fixedPart_def)
qed

lemma writeBack_keeps:
  assumes "inj_on ref (set labels)" and "l \<in> set labels"
    and "fixedPart ` set solved \<subseteq> fixedPart ` set labels"
    and "ref l \<in> ref ` set solved"
  shows "fixedPart (writeBack solved l) = fixedPart l"
proof -
  let ?m = "writeBack solved l"
  from writeBack_cases [of solved l] assms(4)
  have m: "?m \<in> set solved" "ref ?m = ref l" by auto
  from m(1) assms(3) obtain l' where l': "l' \<in> set labels" "fixedPart ?m = fixedPart l'"
    by blast
  from fixedPart_fields [OF l'(2)] m(2) have "ref l' = ref l" by simp
  with assms(1,2) l'(1) have "l' = l" by (simp add: inj_on_def)
  with l'(2) show ?thesis by simp
qed

lemma layout_keeps_labels:
  assumes "\<forall>l \<in> set (pushLabels d 0 [] visible). edge l = Left \<or> edge l = Right"
  shows "map fixedPart (layout (Some a) visible d) = map fixedPart (pushLabels d 0 [] visible)"
proof -
  let ?lo = "- MARGIN_Y + 100" and ?hi = "h d + MARGIN_Y - 100"
  define labels where "labels = pushLabels d 0 [] visible"
  define leftItems where "leftItems = filter (\<lambda>l. edge l = Left) labels"
  define rightItems where "rightItems = filter (\<lambda>l. edge l = Right) labels"
  define solved where "solved = laidOut (solve1DLayout leftItems True ?lo ?hi)
                                @ laidOut (solve1DLayout rightItems True ?lo ?hi)"
  have lay: "layout (Some a) visible d = map (writeBack solved) labels"
    by (simp add: layout_def Let_def labels_def leftItems_def rightItems_def solved_def)
  have inj: "inj_on ref (set labels)"
    unfolding labels_def using pushLabels_distinct_ref [of d visible]
    by (simp add: distinct_map)
  have fp: "fixedPart ` set solved = fixedPart ` set leftItems \<union> fixedPart ` set rightItems"
    by (simp add: solved_def image_Un solve1DLayout_fixedPart)
  then have sub: "fixedPart ` set solved \<subseteq> fixedPart ` set labels"
    by (auto simp: leftItems_def rightItems_def)
  have keep: "fixedPart (writeBack solved l) = fixedPart l" if l: "l \<in> set labels" for l
  proof -
    from assms l have "edge l = Left \<or> edge l = Right" by (simp add: labels_def)
    with l have "l \<in> set leftItems \<or> l \<in> set rightItems"
      by (auto simp: leftItems_def rightItems_def)
    then have "fixedPart l \<in> fixedPart ` set solved" unfolding fp by blast
    then obtain m where m: "m \<in> set solved" "fixedPart l = fixedPart m" by blast
    from fixedPart_fields [OF m(2)] m(1) have "ref l \<in> ref ` set solved" by auto
    from writeBack_keeps [OF inj l sub this] show ?thesis .
  qed
  have "map fixedPart (map (writeBack solved) labels) = map fixedPart labels"
    using keep by (simp add: comp_def)
  then show ?thesis unfolding lay labels_def .
qed

subsection \<open>Layout: the ids of the labels\<close>

lemma headerLabel_id: "label_id (headerLabel d r idx obj) = ''head_'' @ obj_id obj"
proof -
  obtain b0 b1 b2 b3 where b: "box_2d obj = (b0, b1, b2, b3)" by (cases "box_2d obj") auto
  show ?thesis by (simp add: headerLabel_def b Let_def)
qed

lemma detail_ids:
  "map (\<lambda>p. f (fst p)) (enumerate n xs) = map f [n..<n + length xs]"
proof -
  have "map (\<lambda>p. f (fst p)) (enumerate n xs) = map f (map fst (enumerate n xs))"
    by (simp only: map_map comp_def)
  also have "\<dots> = map f [n..<n + length xs]" by (simp only: map_fst_enumerate)
  finally show ?thesis .
qed

lemma objectLabels_id:
  "map label_id (objectLabels d r idx obj)
   = (''head_'' @ obj_id obj)
     # map (\<lambda>i. ''det_'' @ obj_id obj @ ''_'' @ showNat i) [0..<length (details obj)]"
proof -
  let ?hdr = "headerLabel d r idx obj"
  let ?f = "\<lambda>(dIdx, det). detailLabel d ?hdr obj dIdx det"
  have "map (\<lambda>p. label_id (?f p)) (enumerate 0 (details obj))
        = map (\<lambda>p. (\<lambda>i. ''det_'' @ obj_id obj @ ''_'' @ showNat i) (fst p)) (enumerate 0 (details obj))"
    by (rule map_cong [OF refl]) (simp add: split_def detailLabel_def Let_def del: showNat.simps)
  also have "\<dots> = map (\<lambda>i. ''det_'' @ obj_id obj @ ''_'' @ showNat i) [0..<0 + length (details obj)]"
    by (rule detail_ids)
  finally have dets: "map (\<lambda>p. label_id (?f p)) (enumerate 0 (details obj))
        = map (\<lambda>i. ''det_'' @ obj_id obj @ ''_'' @ showNat i) [0..<length (details obj)]"
    by (simp del: showNat.simps)
  have "map label_id (objectLabels d r idx obj)
        = label_id ?hdr # map (\<lambda>p. label_id (?f p)) (enumerate 0 (details obj))"
    by (simp add: objectLabels_def Let_def comp_def del: showNat.simps)
  then show ?thesis by (simp only: dets headerLabel_id)
qed

lemma pushLabels_id:
  "map label_id (pushLabels d idx labels objs)
   = map label_id labels
     @ concat (map (\<lambda>obj. (''head_'' @ obj_id obj)
                           # map (\<lambda>i. ''det_'' @ obj_id obj @ ''_'' @ showNat i)
                                 [0..<length (details obj)]) objs)"
proof (induction objs arbitrary: idx labels)
  case Nil
  show ?case by simp
next
  case (Cons obj objs)
  show ?case
    unfolding pushLabels.simps Cons.IH map_append objectLabels_id by simp
qed

lemma label_id_fixedPart: "label_id (fixedPart a) = label_id a"
  by (simp add: fixedPart_def)

lemma map_label_id_fixedPart: "map label_id (map fixedPart xs) = map label_id xs"
  by (simp add: comp_def label_id_fixedPart)

text \<open>
  Claim C8, amended. For media dimensions that are not negative and visible entities
  whose box coordinates and detail points all lie in the 0-1000 range, every label that
  the layout computation returns has its anchor inside the media bounds, lies in the
  margin of its side, and after the solver its interval along the vertical axis, and so
  its target, lies inside the band from \<open>-MARGIN_Y + 100\<close> to \<open>h + MARGIN_Y - 100\<close>.
  The labels returned are the labels pushed, in the order pushed and each once, with
  nothing but \<open>ty\<close> changed: a header per visible entity, followed by one label per
  detail.
\<close>

theorem layout_anchor_in_media_target_in_band:
  assumes "0 \<le> w d" and "0 \<le> h d"
    and "\<forall>obj \<in> set visible.
           boxNormalized (box_2d obj) \<and> (\<forall>det \<in> set (details obj). detailNormalized det)"
    and "l \<in> set (layout data visible d)"
  shows "anchorInMedia d l
         \<and> inBand True (- MARGIN_Y + 100) (h d + MARGIN_Y - 100) l
         \<and> - 500 \<le> ty l \<and> ty l \<le> h d + 500
         \<and> inSideMargin d l
         \<and> map fixedPart (layout data visible d) = map fixedPart (pushLabels d 0 [] visible)
         \<and> map label_id (layout data visible d)
             = concat (map (\<lambda>obj. (''head_'' @ obj_id obj)
                                   # map (\<lambda>i. ''det_'' @ obj_id obj @ ''_'' @ showNat i)
                                         [0..<length (details obj)]) visible)"
proof -
  let ?lo = "- MARGIN_Y + 100" and ?hi = "h d + MARGIN_Y - 100"
  define labels where "labels = pushLabels d 0 [] visible"
  define leftItems where "leftItems = filter (\<lambda>l. edge l = Left) labels"
  define rightItems where "rightItems = filter (\<lambda>l. edge l = Right) labels"
  define solvedLeft where "solvedLeft = laidOut (solve1DLayout leftItems True ?lo ?hi)"
  define solvedRight where "solvedRight = laidOut (solve1DLayout rightItems True ?lo ?hi)"
  from assms(4) obtain a where data: "data = Some a" by (cases data) (auto simp: layout_def)
  have lay: "layout data visible d = map (writeBack (solvedLeft @ solvedRight)) labels"
    by (simp add: data layout_def Let_def labels_def leftItems_def rightItems_def
        solvedLeft_def solvedRight_def)
  have pl: "\<forall>l \<in> set labels. placed d l"
    unfolding labels_def using pushLabels_placed [OF assms(1,2) _ assms(3), of "[]" 0] by simp
  then have pll: "\<forall>l \<in> set leftItems. placed d l" and plr: "\<forall>l \<in> set rightItems. placed d l"
    by (simp_all add: leftItems_def rightItems_def)
  from assms(4) lay obtain l0 where l0: "l0 \<in> set labels"
      "l = writeBack (solvedLeft @ solvedRight) l0"
    by auto
  from pl l0(1) have "edge l0 = Left \<or> edge l0 = Right" using placed_edge by blast
  with l0(1) have "l0 \<in> set leftItems \<or> l0 \<in> set rightItems"
    by (auto simp: leftItems_def rightItems_def)
  then have "ref l0 \<in> ref ` set (solvedLeft @ solvedRight)"
    using solved_has_ref [of l0 leftItems ?lo ?hi] solved_has_ref [of l0 rightItems ?lo ?hi]
    by (auto simp: solvedLeft_def solvedRight_def)
  with writeBack_cases [of "solvedLeft @ solvedRight" l0] l0(2)
  have "l \<in> set solvedLeft \<or> l \<in> set solvedRight" by auto
  then have p: "placed d l" and
    m: "l \<in> set (laidOut (solve1DLayout leftItems True ?lo ?hi))
        \<or> l \<in> set (laidOut (solve1DLayout rightItems True ?lo ?hi))"
    using solved_placed [OF pll, of l ?lo ?hi] solved_placed [OF plr, of l ?lo ?hi]
    by (auto simp: solvedLeft_def solvedRight_def)
  from p have hb: "0 \<le> height l" "height l \<le> 60" by (simp_all add: placed_def)
  with assms(2) have "height l \<le> ?hi - ?lo" by (simp add: MARGIN_Y_def)
  with m have b: "inBand True ?lo ?hi l" using solved_inBand by blast
  then have c: "- 500 \<le> ty l \<and> ty l \<le> h d + 500"
    using hb by (simp add: inBand_def targetPos_def axisSize_def MARGIN_Y_def)
  from p b c have main: "anchorInMedia d l
         \<and> inBand True (- MARGIN_Y + 100) (h d + MARGIN_Y - 100) l
         \<and> - 500 \<le> ty l \<and> ty l \<le> h d + 500
         \<and> inSideMargin d l"
    by (simp add: placed_def)
  have edges: "\<forall>l \<in> set (pushLabels d 0 [] visible). edge l = Left \<or> edge l = Right"
    using pl placed_edge unfolding labels_def by blast
  have keep: "map fixedPart (layout data visible d) = map fixedPart (pushLabels d 0 [] visible)"
    unfolding data by (rule layout_keeps_labels [OF edges])
  have "map label_id (layout data visible d) = map label_id (map fixedPart (layout data visible d))"
    by (simp only: map_label_id_fixedPart)
  also have "\<dots> = map label_id (pushLabels d 0 [] visible)"
    by (simp only: keep map_label_id_fixedPart)
  also have "\<dots> = concat (map (\<lambda>obj. (''head_'' @ obj_id obj)
                                   # map (\<lambda>i. ''det_'' @ obj_id obj @ ''_'' @ showNat i)
                                         [0..<length (details obj)]) visible)"
    unfolding pushLabels_id by simp
  finally have ids: "map label_id (layout data visible d)
             = concat (map (\<lambda>obj. (''head_'' @ obj_id obj)
                                   # map (\<lambda>i. ''det_'' @ obj_id obj @ ''_'' @ showNat i)
                                         [0..<length (details obj)]) visible)" .
  from main keep ids show ?thesis by (intro conjI) (elim conjE, assumption)+
qed

subsection \<open>Layout: two entities with one detail\<close>

lemma layout_with_detail_inside:
  "layout (Some \<lparr> objects = [entityWithDetail (500, 500)] \<rparr>)
     (visibleObjects (Some \<lparr> objects = [entityWithDetail (500, 500)] \<rparr>) 100 False 0)
     \<lparr> w = 1000, h = 1000 \<rparr>
   = [\<lparr> ref = 0, label_id = ''head_a'', textLines = [''A'', ''steel''], isHeader = True,
         objColor = ''#1e40af'', textColor = ''#ffffff'', px = 100, py = 150,
         tx = - 350, ty = 150, width = 260, height = 60, edge = Left \<rparr>,
       \<lparr> ref = 1, label_id = ''det_a_0'', textLines = [''MARK'', ''dent''], isHeader = False,
         objColor = ''#1e40af'', textColor = ''#334155'', px = 500, py = 500,
         tx = - 400, ty = 230, width = 240, height = 45, edge = Left \<rparr>]"
  by code_simp

lemma layout_with_detail_outside:
  "map px (layout (Some \<lparr> objects = [entityWithDetail (2000, 2000)] \<rparr>)
             (visibleObjects (Some \<lparr> objects = [entityWithDetail (2000, 2000)] \<rparr>) 100 False 0)
             \<lparr> w = 1000, h = 1000 \<rparr>)
   = [100, 2000]"
  by code_simp

text \<open>
  Claim C8 as stated fails: it bounds the box coordinates only. An entity whose box is in
  range and whose detail point is (2000, 2000) gets a detail label anchored at
  \<open>px = 2000\<close> on a medium 1000 wide.
\<close>

theorem detail_anchor_outside_media:
  "boxNormalized (box_2d (entityWithDetail (2000, 2000)))
   \<and> map px (layout (Some \<lparr> objects = [entityWithDetail (2000, 2000)] \<rparr>)
               (visibleObjects (Some \<lparr> objects = [entityWithDetail (2000, 2000)] \<rparr>) 100 False 0)
               \<lparr> w = 1000, h = 1000 \<rparr>)
       = [100, 2000]
   \<and> \<not> anchorInMedia \<lparr> w = 1000, h = 1000 \<rparr>
          (layout (Some \<lparr> objects = [entityWithDetail (2000, 2000)] \<rparr>)
             (visibleObjects (Some \<lparr> objects = [entityWithDetail (2000, 2000)] \<rparr>) 100 False 0)
             \<lparr> w = 1000, h = 1000 \<rparr> ! 1)"
proof -
  let ?lay = "layout (Some \<lparr> objects = [entityWithDetail (2000, 2000)] \<rparr>)
               (visibleObjects (Some \<lparr> objects = [entityWithDetail (2000, 2000)] \<rparr>) 100 False 0)
               \<lparr> w = 1000, h = 1000 \<rparr>"
  have bx: "boxNormalized (box_2d (entityWithDetail (2000, 2000)))"
    by (simp add: entityWithDetail_def normalized_def)
  have m: "map px ?lay = [100, 2000]" by (rule layout_with_detail_outside)
  then have "length (map px ?lay) = length [100, 2000 :: real]" by (simp only:)
  then have "length ?lay = 2" by simp
  then have "px (?lay ! 1) = map px ?lay ! 1" by simp
  then have "px (?lay ! 1) = 2000" unfolding m by simp
  then have n: "\<not> anchorInMedia \<lparr> w = 1000, h = 1000 \<rparr> (?lay ! 1)"
    by (simp add: anchorInMedia_def)
  from bx m n show ?thesis by (intro conjI)
qed

lemma layout_of_two_entities_length:
  "length (layout (Some \<lparr> objects = [entityWithDetail (500, 500), entityOnRight ''b''] \<rparr>)
             (visibleObjects (Some \<lparr> objects = [entityWithDetail (500, 500), entityOnRight ''b''] \<rparr>)
                100 False 0)
             \<lparr> w = 1000, h = 1000 \<rparr>) = 3"
  by (simp add: layout_def visibleObjects_def Let_def entityWithDetail_def entityOnRight_def
      objectLabels_def)

text \<open>
  An entity with one detail at (500, 500) followed by an entity of the right half, on a
  1000 by 1000 medium: three labels come back, and the detail label is the second.
\<close>

theorem layout_anchor_in_media_target_in_band_witness:
  "0 \<le> w \<lparr> w = 1000, h = 1000 \<rparr> \<and> 0 \<le> h \<lparr> w = 1000, h = 1000 \<rparr>
   \<and> boxNormalized (box_2d (entityWithDetail (500, 500)))
   \<and> list_all detailNormalized (details (entityWithDetail (500, 500)))
   \<and> boxNormalized (box_2d (entityOnRight ''b''))
   \<and> list_all detailNormalized (details (entityOnRight ''b''))
   \<and> map label_id
        (layout (Some \<lparr> objects = [entityWithDetail (500, 500), entityOnRight ''b''] \<rparr>)
           (visibleObjects (Some \<lparr> objects = [entityWithDetail (500, 500), entityOnRight ''b''] \<rparr>)
              100 False 0)
           \<lparr> w = 1000, h = 1000 \<rparr>)
       = [''head_a'', ''det_a_0'', ''head_b'']
   \<and> anchorInMedia \<lparr> w = 1000, h = 1000 \<rparr>
        (layout (Some \<lparr> objects = [entityWithDetail (500, 500), entityOnRight ''b''] \<rparr>)
           (visibleObjects (Some \<lparr> objects = [entityWithDetail (500, 500), entityOnRight ''b''] \<rparr>)
              100 False 0)
           \<lparr> w = 1000, h = 1000 \<rparr> ! 1)
   \<and> inBand True (- MARGIN_Y + 100) (h \<lparr> w = 1000, h = 1000 \<rparr> + MARGIN_Y - 100)
        (layout (Some \<lparr> objects = [entityWithDetail (500, 500), entityOnRight ''b''] \<rparr>)
           (visibleObjects (Some \<lparr> objects = [entityWithDetail (500, 500), entityOnRight ''b''] \<rparr>)
              100 False 0)
           \<lparr> w = 1000, h = 1000 \<rparr> ! 1)"
proof -
  let ?d = "\<lparr> w = 1000, h = 1000 \<rparr>"
  let ?a = "entityWithDetail (500, 500)"
  let ?b = "entityOnRight ''b''"
  let ?vis = "visibleObjects (Some \<lparr> objects = [?a, ?b] \<rparr>) 100 False 0"
  let ?lay = "layout (Some \<lparr> objects = [?a, ?b] \<rparr>) ?vis ?d"
  have wd: "0 \<le> w ?d" and hd: "0 \<le> h ?d" by simp_all
  have bxa: "boxNormalized (box_2d ?a)" by (simp add: entityWithDetail_def normalized_def)
  have dta: "list_all detailNormalized (details ?a)"
    by (simp add: entityWithDetail_def detailNormalized_def normalized_def)
  have bxb: "boxNormalized (box_2d ?b)" by (simp add: entityOnRight_def normalized_def)
  have dtb: "list_all detailNormalized (details ?b)" by (simp add: entityOnRight_def)
  have vis: "?vis = [?a, ?b]" by (simp add: visibleObjects_def)
  have ok: "\<forall>obj \<in> set ?vis.
              boxNormalized (box_2d obj) \<and> (\<forall>det \<in> set (details obj). detailNormalized det)"
    unfolding vis using bxa dta bxb dtb by (simp add: list_all_iff)
  have len: "length ?lay = 3" by (rule layout_of_two_entities_length)
  then have "1 < length ?lay" by (simp only:)
  then have mem: "?lay ! 1 \<in> set ?lay" by (rule nth_mem)
  note inst = layout_anchor_in_media_target_in_band [OF wd hd ok mem]
  have a: "anchorInMedia ?d (?lay ! 1)"
    by (rule inst [THEN conjunct1])
  have b: "inBand True (- MARGIN_Y + 100) (h ?d + MARGIN_Y - 100) (?lay ! 1)"
    by (rule inst [THEN conjunct2, THEN conjunct1])
  have "map label_id ?lay
        = concat (map (\<lambda>obj. (''head_'' @ obj_id obj)
                              # map (\<lambda>i. ''det_'' @ obj_id obj @ ''_'' @ showNat i)
                                    [0..<length (details obj)]) ?vis)"
    by (rule inst [THEN conjunct2, THEN conjunct2, THEN conjunct2, THEN conjunct2,
          THEN conjunct2, THEN conjunct2])
  also have "\<dots> = [''head_a'', ''det_a_0'', ''head_b'']"
    unfolding vis by code_simp
  finally have ids: "map label_id ?lay = [''head_a'', ''det_a_0'', ''head_b'']" .
  from wd hd bxa dta bxb dtb ids a b show ?thesis by (intro conjI)
qed

end
